theory Spec2Isabelle
  imports Main "HOL-Library.AList" "HOL-Library.Char_ord" "HOL-Library.List_Lexorder"
    "HOL-Library.Product_Lexorder"
begin

section \<open>Signal phases and traffic lights\<close>

text \<open>
  The three values the attribute \<^verbatim>\<open>state\<close> of a \<^verbatim>\<open>TrafficLight\<close> takes:
  the strings 'RED', 'GREEN' and 'YELLOW'.
\<close>

datatype light_state = RED | GREEN | YELLOW

text \<open>The exceptions the controller's code can raise.\<close>

datatype py_error = IndexError | KeyError | ZeroDivisionError

text \<open>
  Class \<^verbatim>\<open>SignalPhase\<close>: the constructor stores its two arguments unchecked and
  sets \<^verbatim>\<open>red_time\<close> to 0. Durations are Python integers.
\<close>

record SignalPhase =
  green_time :: int
  yellow_time :: int
  red_time :: int

definition SignalPhase_init :: "int \<Rightarrow> int \<Rightarrow> SignalPhase" where
  "SignalPhase_init g y = \<lparr>green_time = g, yellow_time = y, red_time = 0\<rparr>"

text \<open>Class \<^verbatim>\<open>TrafficLight\<close>: created RED with the timer at the phase's red time.\<close>

record TrafficLight =
  signal_phase :: SignalPhase
  state :: light_state
  timer :: int

definition TrafficLight_init :: "SignalPhase \<Rightarrow> TrafficLight" where
  "TrafficLight_init p = \<lparr>signal_phase = p, state = RED, timer = red_time p\<rparr>"

text \<open>The private method \<^verbatim>\<open>__advance_state\<close>, branch by branch.\<close>

definition advance_state :: "TrafficLight \<Rightarrow> TrafficLight" where
  "advance_state l =
     (case state l of
        RED \<Rightarrow> l\<lparr>state := GREEN, timer := green_time (signal_phase l)\<rparr>
      | GREEN \<Rightarrow> l\<lparr>state := YELLOW, timer := yellow_time (signal_phase l)\<rparr>
      | YELLOW \<Rightarrow> l\<lparr>state := RED, timer := red_time (signal_phase l)\<rparr>)"

text \<open>
  \<^verbatim>\<open>TrafficLight.update\<close>: the timer is decremented first, and the decremented
  value decides whether the state advances.
\<close>

definition TrafficLight_update :: "TrafficLight \<Rightarrow> TrafficLight" where
  "TrafficLight_update l =
     (let l' = l\<lparr>timer := timer l - 1\<rparr>
      in if timer l' < 0 then advance_state l' else l')"

section \<open>The intersection controller\<close>

text \<open>
  A lane is identified by the tuple (direction, lane type) of two strings. The
  dictionary \<^verbatim>\<open>lights\<close> is an association list in insertion order, which is the
  order in which \<^verbatim>\<open>items()\<close> iterates; \<^verbatim>\<open>current_group_phase\<close> is a list of
  groups, each a list of lane keys. \<^verbatim>\<open>current_group\<close> starts at 0 and is only ever
  assigned a remainder modulo a length, so it is a natural number. The controller's
  own attribute \<^verbatim>\<open>timer\<close> (the displayed clock) is the field \<open>clock\<close>, the name
  \<open>timer\<close> being the light's.
\<close>

type_synonym LaneKey = "string \<times> string"

record IntersectionController =
  all_red_time :: int
  time_in_all_red :: int
  clock :: int
  lights :: "(LaneKey \<times> TrafficLight) list"
  current_group :: nat
  current_group_phase :: "LaneKey list list"

definition IntersectionController_init :: "int \<Rightarrow> IntersectionController" where
  "IntersectionController_init c =
     \<lparr>all_red_time = c, time_in_all_red = 0, clock = 0, lights = [],
      current_group = 0, current_group_phase = []\<rparr>"

text \<open>
  \<^verbatim>\<open>add_light\<close>: assigning to a dictionary key that exists replaces the value in
  place, a new key goes to the end; the group list always grows by one singleton group.
\<close>

definition add_light ::
  "string \<Rightarrow> string \<Rightarrow> SignalPhase \<Rightarrow> IntersectionController \<Rightarrow> IntersectionController" where
  "add_light direction lane_type p s =
     s\<lparr>lights := AList.update (direction, lane_type) (TrafficLight_init p) (lights s),
       current_group_phase := current_group_phase s @ [[(direction, lane_type)]]\<rparr>"

text \<open>
  \<^verbatim>\<open>sort_lights\<close>: \<^verbatim>\<open>list.sort(reverse=True)\<close> on lists of tuples of strings, all
  compared lexicographically. Elements that compare equal are identical, so the
  descending stable sort is the reversed ascending one.
\<close>

definition sort_lights :: "IntersectionController \<Rightarrow> IntersectionController" where
  "sort_lights s = s\<lparr>current_group_phase := rev (sort (current_group_phase s))\<rparr>"

definition update_timer :: "IntersectionController \<Rightarrow> IntersectionController" where
  "update_timer s = s\<lparr>clock := clock s + 1\<rparr>"

text \<open>
  The body of the loop over \<^verbatim>\<open>self.lights.items()\<close> in \<^verbatim>\<open>update\<close>: a light whose
  key is in the active group is ticked; any other light that is not RED has its state
  set to RED, and nothing else is written.
\<close>

definition dispatch_light :: "LaneKey list \<Rightarrow> LaneKey \<times> TrafficLight \<Rightarrow> LaneKey \<times> TrafficLight" where
  "dispatch_light grp kl =
     (fst kl,
      if fst kl \<in> set grp then TrafficLight_update (snd kl)
      else if state (snd kl) \<noteq> RED then (snd kl)\<lparr>state := RED\<rparr>
      else snd kl)"

text \<open>The group \<^verbatim>\<open>self.current_group_phase[self.current_group]\<close>.\<close>

definition active_group :: "IntersectionController \<Rightarrow> LaneKey list" where
  "active_group s = current_group_phase s ! current_group s"

text \<open>
  The whole loop. \<^verbatim>\<open>self.current_group_phase[self.current_group]\<close> is evaluated
  once per light, so an index out of range raises only when there is a light.
\<close>

definition dispatch :: "IntersectionController \<Rightarrow> py_error + (LaneKey \<times> TrafficLight) list" where
  "dispatch s =
     (if lights s = [] then Inr []
      else if current_group s < length (current_group_phase s)
      then Inr (map (dispatch_light (active_group s)) (lights s))
      else Inl IndexError)"

text \<open>
  The condition of line 63: \<^verbatim>\<open>all(...)\<close> over \<^verbatim>\<open>self.current_group_phase\<close>. The
  loop variable ranges over the groups, so \<^verbatim>\<open>key[0]\<close> is the first lane key of a
  group, looked up in the dictionary as a whole tuple. \<^verbatim>\<open>all\<close> stops at the first
  group whose light is not RED with timer 0.
\<close>

fun completion_check :: "(LaneKey \<times> TrafficLight) list \<Rightarrow> LaneKey list list \<Rightarrow> py_error + bool" where
  "completion_check ls [] = Inr True"
| "completion_check ls ([] # gs) = Inl IndexError"
| "completion_check ls ((k # ks) # gs) =
     (case map_of ls k of
        None \<Rightarrow> Inl KeyError
      | Some l \<Rightarrow> if state l = RED \<and> timer l = 0 then completion_check ls gs else Inr False)"

text \<open>
  \<^verbatim>\<open>IntersectionController.update\<close>: the clearance gate, the loop over the lights,
  then the completion check, whose remainder by the number of groups raises
  ZeroDivisionError when there is no group.
\<close>

definition controller_update :: "IntersectionController \<Rightarrow> py_error + IntersectionController" where
  "controller_update s =
     (if time_in_all_red s > 1 then Inr (s\<lparr>time_in_all_red := time_in_all_red s - 1\<rparr>)
      else case dispatch s of
        Inl e \<Rightarrow> Inl e
      | Inr ls \<Rightarrow>
          (case completion_check ls (current_group_phase s) of
             Inl e \<Rightarrow> Inl e
           | Inr ready \<Rightarrow>
               if ready then
                 (if length (current_group_phase s) = 0 then Inl ZeroDivisionError
                  else Inr (s\<lparr>lights := ls,
                         current_group := (current_group s + 1) mod length (current_group_phase s),
                         time_in_all_red := all_red_time s\<rparr>))
               else Inr (s\<lparr>lights := ls\<rparr>)))"

text \<open>Calling \<^verbatim>\<open>update\<close> n times in a row; an exception ends the run.\<close>

fun run_updates :: "nat \<Rightarrow> IntersectionController \<Rightarrow> py_error + IntersectionController" where
  "run_updates 0 s = Inr s"
| "run_updates (Suc n) s =
     (case controller_update s of Inl e \<Rightarrow> Inl e | Inr s' \<Rightarrow> run_updates n s')"

text \<open>
  The configuration part of \<^verbatim>\<open>simulate\<close>: one \<^verbatim>\<open>add_light\<close> per lane, each with a
  phase built by the constructor, then \<^verbatim>\<open>sort_lights\<close>. A lane is given as
  (direction, lane type, green time, yellow time).
\<close>

type_synonym lane_config = "string \<times> string \<times> int \<times> int"

definition add_lane :: "IntersectionController \<Rightarrow> lane_config \<Rightarrow> IntersectionController" where
  "add_lane s lc =
     (case lc of (direction, lane_type, g, y) \<Rightarrow>
        add_light direction lane_type (SignalPhase_init g y) s)"

definition add_lights :: "lane_config list \<Rightarrow> IntersectionController \<Rightarrow> IntersectionController" where
  "add_lights lanes s = foldl add_lane s lanes"

definition configured :: "lane_config list \<Rightarrow> int \<Rightarrow> IntersectionController" where
  "configured lanes c = sort_lights (add_lights lanes (IntersectionController_init c))"

definition run :: "lane_config list \<Rightarrow> int \<Rightarrow> nat \<Rightarrow> py_error + IntersectionController" where
  "run lanes c n = run_updates n (configured lanes c)"


definition lane_key :: "lane_config \<Rightarrow> LaneKey" where
  "lane_key lc = (fst lc, fst (snd lc))"

section \<open>The properties, as the specification words them\<close>

text \<open>The cyclic order of the states and the duration configured for each state.\<close>

definition spec_next_state :: "light_state \<Rightarrow> light_state" where
  "spec_next_state c = (case c of RED \<Rightarrow> GREEN | GREEN \<Rightarrow> YELLOW | YELLOW \<Rightarrow> RED)"

definition spec_duration :: "SignalPhase \<Rightarrow> light_state \<Rightarrow> int" where
  "spec_duration p c =
     (case c of RED \<Rightarrow> red_time p | GREEN \<Rightarrow> green_time p | YELLOW \<Rightarrow> yellow_time p)"

text \<open>A light is at rest when it is RED with timer exactly 0.\<close>

definition at_rest :: "TrafficLight \<Rightarrow> bool" where
  "at_rest l \<longleftrightarrow> state l = RED \<and> timer l = 0"

text \<open>
  The specification's completion condition: every lane key of the given group, looked
  up by the whole key, is RED with timer exactly 0.
\<close>

definition spec_group_ready :: "(LaneKey \<times> TrafficLight) list \<Rightarrow> LaneKey list \<Rightarrow> bool" where
  "spec_group_ready ls grp =
     list_all (\<lambda>k. case map_of ls k of None \<Rightarrow> False | Some l \<Rightarrow> at_rest l) grp"

text \<open>
  What the condition of line 63 comes to when it raises nothing: the light of the first
  key of every group is at rest.
\<close>

definition first_keys_at_rest :: "(LaneKey \<times> TrafficLight) list \<Rightarrow> LaneKey list list \<Rightarrow> bool" where
  "first_keys_at_rest ls gs =
     list_all (\<lambda>g. case g of [] \<Rightarrow> False
                | k # _ \<Rightarrow> (case map_of ls k of None \<Rightarrow> False | Some l \<Rightarrow> at_rest l)) gs"

text \<open>A lane that has just turned GREEN: its timer is the green time of its phase.\<close>

definition lane_green :: "(LaneKey \<times> TrafficLight) list \<Rightarrow> LaneKey \<Rightarrow> bool" where
  "lane_green ls k =
     (case map_of ls k of None \<Rightarrow> False
      | Some l \<Rightarrow> state l = GREEN \<and> timer l = green_time (signal_phase l))"

text \<open>Every light whose key is outside the active group is RED.\<close>

definition inactive_red :: "IntersectionController \<Rightarrow> bool" where
  "inactive_red s =
     list_all (\<lambda>kl. fst kl \<in> set (active_group s) \<or> state (snd kl) = RED) (lights s)"

text \<open>The groups that have a lane showing GREEN or YELLOW.\<close>

definition lane_lit :: "(LaneKey \<times> TrafficLight) list \<Rightarrow> LaneKey \<Rightarrow> bool" where
  "lane_lit ls k =
     (case map_of ls k of None \<Rightarrow> False | Some l \<Rightarrow> state l = GREEN \<or> state l = YELLOW)"

definition lit_groups :: "IntersectionController \<Rightarrow> LaneKey list list" where
  "lit_groups s = filter (list_ex (lane_lit (lights s))) (current_group_phase s)"

text \<open>Every light outside the active group is at rest; every light is at rest.\<close>

definition inactive_at_rest :: "IntersectionController \<Rightarrow> bool" where
  "inactive_at_rest s =
     list_all (\<lambda>kl. fst kl \<in> set (active_group s) \<or> at_rest (snd kl)) (lights s)"

definition all_at_rest :: "(LaneKey \<times> TrafficLight) list \<Rightarrow> bool" where
  "all_at_rest ls = list_all (\<lambda>kl. at_rest (snd kl)) ls"

section \<open>The invariant of a configured controller\<close>

text \<open>
  What \<^verbatim>\<open>add_light\<close> establishes and \<^verbatim>\<open>update\<close> keeps: the dictionary has one
  entry per key, every group is a single key of the dictionary, every key of the
  dictionary is a group, and every phase has red time 0.
\<close>

definition lights_ok :: "(LaneKey \<times> TrafficLight) list \<Rightarrow> LaneKey list list \<Rightarrow> bool" where
  "lights_ok ls gs \<longleftrightarrow>
     distinct (map fst ls) \<and>
     (\<forall>g \<in> set gs. \<exists>k. g = [k] \<and> k \<in> fst ` set ls) \<and>
     (\<forall>k \<in> fst ` set ls. [k] \<in> set gs) \<and>
     (\<forall>kl \<in> set ls. red_time (signal_phase (snd kl)) = 0)"

definition controller_inv :: "IntersectionController \<Rightarrow> bool" where
  "controller_inv s \<longleftrightarrow>
     current_group s < length (current_group_phase s) \<and>
     lights_ok (lights s) (current_group_phase s) \<and>
     (\<forall>kl \<in> set (lights s). fst kl \<notin> set (active_group s) \<longrightarrow> at_rest (snd kl))"

text \<open>A controller on which \<^verbatim>\<open>update\<close> has not been called yet.\<close>

definition fresh :: "IntersectionController \<Rightarrow> bool" where
  "fresh s \<longleftrightarrow>
     current_group s = 0 \<and> time_in_all_red s = 0 \<and>
     lights_ok (lights s) (current_group_phase s) \<and>
     (\<forall>kl \<in> set (lights s). at_rest (snd kl))"

section \<open>The traffic light\<close>

text \<open>
  C3. One call of \<^verbatim>\<open>TrafficLight.update\<close> decrements the timer by 1. If the timer is
  then negative, the light goes to the next state of the cycle RED, GREEN, YELLOW, RED
  and the timer becomes the duration configured for the state entered; if the timer is
  not negative after the decrement, the state is unchanged and the timer keeps the
  decremented value. The phase is never changed.
\<close>

theorem tick_semantics:
  "signal_phase (TrafficLight_update l) = signal_phase l \<and>
   (if timer l - 1 < 0
    then state (TrafficLight_update l) = spec_next_state (state l) \<and>
         timer (TrafficLight_update l) =
           spec_duration (signal_phase l) (spec_next_state (state l))
    else state (TrafficLight_update l) = state l \<and>
         timer (TrafficLight_update l) = timer l - 1)"
  by (cases "state l")
     (simp_all add: TrafficLight_update_def advance_state_def spec_next_state_def
        spec_duration_def Let_def)

theorem tick_semantics_witness:
  "state (TrafficLight_update
      \<lparr>signal_phase = SignalPhase_init 3 2, state = GREEN, timer = 0\<rparr>) = YELLOW \<and>
   timer (TrafficLight_update
      \<lparr>signal_phase = SignalPhase_init 3 2, state = GREEN, timer = 0\<rparr>) = 2 \<and>
   state (TrafficLight_update
      \<lparr>signal_phase = SignalPhase_init 3 2, state = GREEN, timer = 2\<rparr>) = GREEN \<and>
   timer (TrafficLight_update
      \<lparr>signal_phase = SignalPhase_init 3 2, state = GREEN, timer = 2\<rparr>) = 1"
  using tick_semantics [of "\<lparr>signal_phase = SignalPhase_init 3 2, state = GREEN, timer = 0\<rparr>"]
    tick_semantics [of "\<lparr>signal_phase = SignalPhase_init 3 2, state = GREEN, timer = 2\<rparr>"]
  by (simp add: spec_next_state_def spec_duration_def SignalPhase_init_def)

lemma update_phase: "signal_phase (TrafficLight_update l) = signal_phase l"
  by (cases "state l") (simp_all add: TrafficLight_update_def advance_state_def Let_def)

text \<open>A light whose timer is k counts down to 0 in k ticks without changing state.\<close>

lemma countdown:
  "timer l = int k \<Longrightarrow> (TrafficLight_update ^^ k) l = l\<lparr>timer := 0\<rparr>"
proof (induction k arbitrary: l)
  case 0
  then show ?case by simp
next
  case (Suc k)
  have step: "TrafficLight_update l = l\<lparr>timer := int k\<rparr>"
    using Suc.prems by (simp add: TrafficLight_update_def Let_def)
  have "(TrafficLight_update ^^ Suc k) l = (TrafficLight_update ^^ k) (TrafficLight_update l)"
    by (simp add: funpow_swap1)
  also have "\<dots> = (l\<lparr>timer := int k\<rparr>)\<lparr>timer := 0\<rparr>"
    unfolding step by (rule Suc.IH) simp
  finally show ?case by simp
qed

lemma cycle_nat:
  fixes g y :: nat
  defines "l0 \<equiv> TrafficLight_init (SignalPhase_init (int g) (int y))"
  shows "(TrafficLight_update ^^ (1 + g + 1 + y + 1)) l0 = l0"
proof -
  let ?p = "SignalPhase_init (int g) (int y)"
  let ?G = "\<lparr>signal_phase = ?p, state = GREEN, timer = int g\<rparr>"
  let ?Y = "\<lparr>signal_phase = ?p, state = YELLOW, timer = int y\<rparr>"
  have to_green: "TrafficLight_update l0 = ?G"
    by (simp add: l0_def TrafficLight_init_def SignalPhase_init_def TrafficLight_update_def
        advance_state_def Let_def)
  have green: "(TrafficLight_update ^^ g) ?G = ?G\<lparr>timer := 0\<rparr>"
    by (rule countdown) simp
  have to_yellow: "TrafficLight_update (?G\<lparr>timer := 0\<rparr>) = ?Y"
    by (simp add: SignalPhase_init_def TrafficLight_update_def advance_state_def Let_def)
  have yellow: "(TrafficLight_update ^^ y) ?Y = ?Y\<lparr>timer := 0\<rparr>"
    by (rule countdown) simp
  have to_red: "TrafficLight_update (?Y\<lparr>timer := 0\<rparr>) = l0"
    by (simp add: l0_def TrafficLight_init_def SignalPhase_init_def TrafficLight_update_def
        advance_state_def Let_def)
  have split: "1 + g + 1 + y + 1 = Suc 0 + (y + (Suc 0 + (g + Suc 0)))"
    by simp
  have "(TrafficLight_update ^^ (1 + g + 1 + y + 1)) l0 =
        TrafficLight_update ((TrafficLight_update ^^ y) (TrafficLight_update
          ((TrafficLight_update ^^ g) (TrafficLight_update l0))))"
    unfolding split by (simp only: funpow_add o_apply funpow.simps id_apply)
  then show ?thesis
    by (simp only: to_green green to_yellow yellow to_red)
qed

text \<open>
  C5. For non-negative g and y, a light built on \<^verbatim>\<open>SignalPhase(g, y)\<close>, which
  starts RED, is after exactly 1 + g + 1 + y + 1 ticks the light it was at the start:
  RED again, with the timer value it had when it was RED before.
\<close>

theorem cycle_closure:
  assumes "0 \<le> g" and "0 \<le> y"
  shows "(TrafficLight_update ^^ nat (1 + g + 1 + y + 1))
           (TrafficLight_init (SignalPhase_init g y)) = TrafficLight_init (SignalPhase_init g y)
         \<and> state ((TrafficLight_update ^^ nat (1 + g + 1 + y + 1))
             (TrafficLight_init (SignalPhase_init g y))) = RED
         \<and> timer ((TrafficLight_update ^^ nat (1 + g + 1 + y + 1))
             (TrafficLight_init (SignalPhase_init g y))) =
           timer (TrafficLight_init (SignalPhase_init g y))"
proof -
  have "nat (1 + g + 1 + y + 1) = 1 + nat g + 1 + nat y + 1"
    using assms by simp
  then have "(TrafficLight_update ^^ nat (1 + g + 1 + y + 1))
           (TrafficLight_init (SignalPhase_init g y)) = TrafficLight_init (SignalPhase_init g y)"
    using cycle_nat [of "nat g" "nat y"] assms by simp
  then show ?thesis
    by (simp add: TrafficLight_init_def)
qed

theorem cycle_closure_witness:
  "(0::int) \<le> 3 \<and> (0::int) \<le> 2 \<and>
   (TrafficLight_update ^^ nat (1 + 3 + 1 + 2 + 1)) (TrafficLight_init (SignalPhase_init 3 2))
     = TrafficLight_init (SignalPhase_init 3 2)"
  using cycle_closure [of 3 2] by simp

text \<open>
  C6. When the three durations of a light's phase are non-negative, the timer is
  non-negative after \<^verbatim>\<open>update\<close> returns, whatever the light was before the call: the
  negative value the decrement may produce is replaced before the call ends.
\<close>

theorem timer_nonneg:
  assumes "0 \<le> green_time (signal_phase l)" and "0 \<le> yellow_time (signal_phase l)"
    and "0 \<le> red_time (signal_phase l)"
  shows "0 \<le> timer (TrafficLight_update l)"
  using assms
  by (cases "state l") (simp_all add: TrafficLight_update_def advance_state_def Let_def)

theorem timer_nonneg_witness:
  "0 \<le> green_time (signal_phase (TrafficLight_init (SignalPhase_init 3 2))) \<and>
   0 \<le> yellow_time (signal_phase (TrafficLight_init (SignalPhase_init 3 2))) \<and>
   0 \<le> red_time (signal_phase (TrafficLight_init (SignalPhase_init 3 2))) \<and>
   0 \<le> timer (TrafficLight_update (TrafficLight_init (SignalPhase_init 3 2)))"
  using timer_nonneg [of "TrafficLight_init (SignalPhase_init 3 2)"]
  by (simp add: TrafficLight_init_def SignalPhase_init_def)

text \<open>
  C8, as the code has it. The constructor of \<^verbatim>\<open>SignalPhase\<close> checks nothing: for
  any integers g and y, negative ones included, it stores them unchanged with red time
  0, and the first tick of a light built on the phase turns it GREEN with timer g.
\<close>

theorem phase_unvalidated:
  "green_time (SignalPhase_init g y) = g \<and> yellow_time (SignalPhase_init g y) = y \<and>
   red_time (SignalPhase_init g y) = 0 \<and>
   TrafficLight_update (TrafficLight_init (SignalPhase_init g y)) =
     \<lparr>signal_phase = SignalPhase_init g y, state = GREEN, timer = g\<rparr>"
  by (simp add: SignalPhase_init_def TrafficLight_init_def TrafficLight_update_def
      advance_state_def Let_def)

text \<open>
  The claim C8 fails at green time -3: the phase is built, and one tick of its light
  leaves the timer at -3.
\<close>

theorem phase_negative_counterexample:
  "SignalPhase_init (- 3) 2 = \<lparr>green_time = - 3, yellow_time = 2, red_time = 0\<rparr> \<and>
   TrafficLight_update (TrafficLight_init (SignalPhase_init (- 3) 2)) =
     \<lparr>signal_phase = \<lparr>green_time = - 3, yellow_time = 2, red_time = 0\<rparr>,
      state = GREEN, timer = - 3\<rparr> \<and>
   timer (TrafficLight_update (TrafficLight_init (SignalPhase_init (- 3) 2))) < 0"
  by (simp add: SignalPhase_init_def TrafficLight_init_def TrafficLight_update_def
      advance_state_def Let_def)

section \<open>The controller: dispatch and the invariant\<close>

lemma dispatch_light_key: "fst (dispatch_light g kl) = fst kl"
  by (simp add: dispatch_light_def)

lemma dispatch_light_phase: "signal_phase (snd (dispatch_light g kl)) = signal_phase (snd kl)"
  by (simp add: dispatch_light_def update_phase)

lemma dispatch_light_rest:
  "fst kl \<notin> set g \<Longrightarrow> at_rest (snd kl) \<Longrightarrow> dispatch_light g kl = kl"
  by (simp add: dispatch_light_def at_rest_def)

lemma lights_ok_dispatch:
  assumes "lights_ok ls gs"
  shows "lights_ok (map (dispatch_light g) ls) gs"
proof -
  have keys: "map fst (map (dispatch_light g) ls) = map fst ls"
    by (simp add: dispatch_light_key comp_def)
  then have img: "fst ` set (map (dispatch_light g) ls) = fst ` set ls"
    by (metis set_map)
  show ?thesis
    using assms unfolding lights_ok_def keys img
    by (auto simp: dispatch_light_phase)
qed

text \<open>
  On single-key groups whose keys are all in the dictionary, the check of line 63
  raises nothing and returns whether the light of every group is at rest.
\<close>

lemma completion_check_ok:
  assumes "\<forall>g \<in> set gs. \<exists>k. g = [k] \<and> k \<in> fst ` set ls"
  shows "completion_check ls gs =
           Inr (\<forall>g \<in> set gs. \<forall>l. map_of ls (hd g) = Some l \<longrightarrow> at_rest l)"
  using assms
proof (induction gs)
  case Nil
  then show ?case by simp
next
  case (Cons g gs)
  then obtain k where g: "g = [k]" and k: "k \<in> fst ` set ls"
    by auto
  from k obtain l where l: "map_of ls k = Some l"
    by (metis domD dom_map_of_conv_image_fst)
  from Cons have ih: "completion_check ls gs =
      Inr (\<forall>g \<in> set gs. \<forall>l. map_of ls (hd g) = Some l \<longrightarrow> at_rest l)"
    by simp
  have step: "completion_check ls (g # gs) =
      (if at_rest l then completion_check ls gs else Inr False)"
    by (simp add: g l at_rest_def)
  have rhs: "(\<forall>g' \<in> set (g # gs). \<forall>l'. map_of ls (hd g') = Some l' \<longrightarrow> at_rest l') \<longleftrightarrow>
      at_rest l \<and> (\<forall>g' \<in> set gs. \<forall>l'. map_of ls (hd g') = Some l' \<longrightarrow> at_rest l')"
    by (simp add: g l)
  show ?case
    unfolding step rhs ih by simp
qed

lemma all_rest_if_ready:
  assumes ok: "lights_ok ls gs"
    and ready: "\<forall>g \<in> set gs. \<forall>l. map_of ls (hd g) = Some l \<longrightarrow> at_rest l"
    and kl: "kl \<in> set ls"
  shows "at_rest (snd kl)"
proof -
  from ok kl have "[fst kl] \<in> set gs"
    by (auto simp: lights_ok_def)
  moreover from ok kl have "map_of ls (fst kl) = Some (snd kl)"
    by (simp add: lights_ok_def)
  ultimately show ?thesis
    using ready by fastforce
qed

text \<open>
  Under the invariant, the lights outside the active group stay at rest through the
  loop, so the check over every group agrees with the specification's check over the
  active group.
\<close>

lemma inactive_stay_at_rest:
  assumes rest: "\<forall>kl \<in> set ls. fst kl \<notin> set grp \<longrightarrow> at_rest (snd kl)"
    and kl': "kl' \<in> set (map (dispatch_light grp) ls)" and out: "fst kl' \<notin> set grp"
  shows "at_rest (snd kl')"
proof -
  from kl' obtain kl where kl: "kl \<in> set ls" and e: "kl' = dispatch_light grp kl"
    by auto
  from out e have "fst kl \<notin> set grp"
    by (simp add: dispatch_light_key)
  with rest kl have "at_rest (snd kl)" "dispatch_light grp kl = kl"
    by (simp_all add: dispatch_light_rest)
  with e show ?thesis by simp
qed

lemma ready_iff_active:
  assumes inv: "controller_inv s"
  defines "ls \<equiv> map (dispatch_light (active_group s)) (lights s)"
  shows "(\<forall>g \<in> set (current_group_phase s). \<forall>l. map_of ls (hd g) = Some l \<longrightarrow> at_rest l)
           \<longleftrightarrow> spec_group_ready ls (active_group s)"
proof -
  let ?gs = "current_group_phase s"
  from inv have cg: "current_group s < length ?gs"
    and ok: "lights_ok (lights s) ?gs"
    and rest: "\<forall>kl \<in> set (lights s). fst kl \<notin> set (active_group s) \<longrightarrow> at_rest (snd kl)"
    by (simp_all add: controller_inv_def)
  have ok': "lights_ok ls ?gs"
    unfolding ls_def using ok by (rule lights_ok_dispatch)
  from cg have mem: "active_group s \<in> set ?gs"
    by (simp add: active_group_def)
  with ok' obtain a where a: "active_group s = [a]" and ain: "a \<in> fst ` set ls"
    unfolding lights_ok_def by blast
  from ain obtain la where la: "map_of ls a = Some la"
    by (metis domD dom_map_of_conv_image_fst)
  have spec: "spec_group_ready ls (active_group s) \<longleftrightarrow> at_rest la"
    by (simp add: spec_group_ready_def a la)
  show ?thesis
  proof
    assume "\<forall>g \<in> set ?gs. \<forall>l. map_of ls (hd g) = Some l \<longrightarrow> at_rest l"
    with mem a la have "at_rest la" by fastforce
    with spec show "spec_group_ready ls (active_group s)" by simp
  next
    assume "spec_group_ready ls (active_group s)"
    with spec have ra: "at_rest la" by simp
    show "\<forall>g \<in> set ?gs. \<forall>l. map_of ls (hd g) = Some l \<longrightarrow> at_rest l"
    proof (intro ballI allI impI)
      fix g l assume g: "g \<in> set ?gs" and l: "map_of ls (hd g) = Some l"
      show "at_rest l"
      proof (cases "hd g = a")
        case True
        with l la ra show ?thesis by simp
      next
        case False
        from l have "(hd g, l) \<in> set ls"
          by (rule map_of_SomeD)
        moreover from False a have "fst (hd g, l) \<notin> set (active_group s)"
          by simp
        ultimately have "at_rest (snd (hd g, l))"
          unfolding ls_def using rest by (intro inactive_stay_at_rest)
        then show ?thesis by simp
      qed
    qed
  qed
qed

text \<open>
  What an ungated \<^verbatim>\<open>update\<close> does to a controller that satisfies the invariant:
  no exception, and the completion branch is taken exactly when the specification's
  condition holds of the active group.
\<close>

lemma update_explicit:
  assumes inv: "controller_inv s" and open_gate: "time_in_all_red s \<le> 1"
  defines "ls \<equiv> map (dispatch_light (active_group s)) (lights s)"
  shows "dispatch s = Inr ls"
    and "completion_check ls (current_group_phase s) = Inr (spec_group_ready ls (active_group s))"
    and "controller_update s =
       Inr (if spec_group_ready ls (active_group s)
            then s\<lparr>lights := ls,
                   current_group := (current_group s + 1) mod length (current_group_phase s),
                   time_in_all_red := all_red_time s\<rparr>
            else s\<lparr>lights := ls\<rparr>)"
proof -
  let ?gs = "current_group_phase s"
  from inv have cg: "current_group s < length ?gs"
    and ok: "lights_ok (lights s) ?gs"
    by (simp_all add: controller_inv_def)
  show d: "dispatch s = Inr ls"
    using cg by (simp add: dispatch_def ls_def)
  have ok': "lights_ok ls ?gs"
    unfolding ls_def using ok by (rule lights_ok_dispatch)
  then have "completion_check ls ?gs =
      Inr (\<forall>g \<in> set ?gs. \<forall>l. map_of ls (hd g) = Some l \<longrightarrow> at_rest l)"
    by (intro completion_check_ok) (simp add: lights_ok_def)
  then show cc: "completion_check ls ?gs = Inr (spec_group_ready ls (active_group s))"
    using ready_iff_active [OF inv] unfolding ls_def by simp
  from cg have ne: "?gs \<noteq> []" by auto
  show "controller_update s =
       Inr (if spec_group_ready ls (active_group s)
            then s\<lparr>lights := ls,
                   current_group := (current_group s + 1) mod length ?gs,
                   time_in_all_red := all_red_time s\<rparr>
            else s\<lparr>lights := ls\<rparr>)"
    using open_gate ne by (simp add: controller_update_def d cc)
qed

text \<open>When the completion branch is taken, every light is at rest.\<close>

lemma ready_all_at_rest:
  assumes inv: "controller_inv s"
    and ready: "spec_group_ready (map (dispatch_light (active_group s)) (lights s)) (active_group s)"
    and kl: "kl \<in> set (map (dispatch_light (active_group s)) (lights s))"
  shows "at_rest (snd kl)"
proof -
  let ?ls = "map (dispatch_light (active_group s)) (lights s)"
  from inv have "lights_ok (lights s) (current_group_phase s)"
    by (simp add: controller_inv_def)
  then have ok': "lights_ok ?ls (current_group_phase s)"
    by (rule lights_ok_dispatch)
  from ready have "\<forall>g \<in> set (current_group_phase s). \<forall>l. map_of ?ls (hd g) = Some l \<longrightarrow> at_rest l"
    using ready_iff_active [OF inv] by simp
  from all_rest_if_ready [OF ok' this kl] show ?thesis .
qed

text \<open>One call of \<^verbatim>\<open>update\<close> keeps the invariant and raises nothing.\<close>

lemma inv_step:
  assumes inv: "controller_inv s"
  shows "\<exists>s'. controller_update s = Inr s' \<and> controller_inv s' \<and>
           (current_group s' \<noteq> current_group s \<longrightarrow> (\<forall>kl \<in> set (lights s'). at_rest (snd kl)))"
proof (cases "1 < time_in_all_red s")
  case True
  then show ?thesis
    using inv by (simp add: controller_update_def controller_inv_def active_group_def)
next
  case False
  then have open_gate: "time_in_all_red s \<le> 1" by simp
  let ?gs = "current_group_phase s"
  let ?ls = "map (dispatch_light (active_group s)) (lights s)"
  from inv have cg: "current_group s < length ?gs"
    and ok: "lights_ok (lights s) ?gs"
    and rest: "\<forall>kl \<in> set (lights s). fst kl \<notin> set (active_group s) \<longrightarrow> at_rest (snd kl)"
    by (simp_all add: controller_inv_def)
  have ok': "lights_ok ?ls ?gs"
    using ok by (rule lights_ok_dispatch)
  note u = update_explicit(3) [OF inv open_gate]
  show ?thesis
  proof (cases "spec_group_ready ?ls (active_group s)")
    case True
    let ?s' = "s\<lparr>lights := ?ls,
                 current_group := (current_group s + 1) mod length ?gs,
                 time_in_all_red := all_red_time s\<rparr>"
    from u True have u': "controller_update s = Inr ?s'" by simp
    have all: "\<forall>kl \<in> set ?ls. at_rest (snd kl)"
      using ready_all_at_rest [OF inv True] by blast
    moreover have "(current_group s + 1) mod length ?gs < length ?gs"
      using cg by (intro mod_less_divisor) auto
    ultimately have "controller_inv ?s'"
      using ok' by (simp add: controller_inv_def)
    with u' all show ?thesis by simp
  next
    case nr: False
    let ?s' = "s\<lparr>lights := ?ls\<rparr>"
    from u nr have u': "controller_update s = Inr ?s'" by simp
    have "\<forall>kl' \<in> set ?ls. fst kl' \<notin> set (active_group s) \<longrightarrow> at_rest (snd kl')"
      using inactive_stay_at_rest [OF rest] by blast
    then have "controller_inv ?s'"
      using cg ok' by (simp add: controller_inv_def active_group_def)
    with u' show ?thesis by simp
  qed
qed

lemma inv_run_updates:
  "controller_inv s \<Longrightarrow> \<exists>s'. run_updates n s = Inr s' \<and> controller_inv s'"
proof (induction n arbitrary: s)
  case 0
  then show ?case by simp
next
  case (Suc n)
  from inv_step [OF Suc.prems] obtain s1 where "controller_update s = Inr s1" "controller_inv s1"
    by blast
  with Suc.IH [of s1] show ?case by simp
qed

section \<open>Configuration establishes the invariant\<close>

lemma fresh_init: "fresh (IntersectionController_init c)"
  by (simp add: fresh_def IntersectionController_init_def lights_ok_def)

lemma set_update_subset: "set (AList.update k v al) \<subseteq> insert (k, v) (set al)"
  by (induction al) auto

lemma fresh_add_lane:
  assumes "fresh s"
  shows "fresh (add_lane s lc)"
proof -
  obtain d t g y where lc: "lc = (d, t, g, y)"
    by (cases lc) auto
  let ?l = "TrafficLight_init (SignalPhase_init g y)"
  let ?ls = "AList.update (d, t) ?l (lights s)"
  have sub: "set ?ls \<subseteq> insert ((d, t), ?l) (set (lights s))"
    by (rule set_update_subset)
  have keys: "fst ` set ?ls = insert (d, t) (fst ` set (lights s))"
    by (simp add: AList.dom_update)
  have new: "at_rest ?l" "red_time (signal_phase ?l) = 0"
    by (simp_all add: at_rest_def TrafficLight_init_def SignalPhase_init_def)
  from assms have ok: "lights_ok (lights s) (current_group_phase s)"
    and rest: "\<forall>kl \<in> set (lights s). at_rest (snd kl)"
    by (simp_all add: fresh_def)
  have "lights_ok ?ls (current_group_phase s @ [[(d, t)]])"
    unfolding lights_ok_def keys
  proof (intro conjI)
    show "distinct (map fst ?ls)"
      using ok by (simp add: lights_ok_def AList.distinct_update)
    show "\<forall>g \<in> set (current_group_phase s @ [[(d, t)]]).
            \<exists>k. g = [k] \<and> k \<in> insert (d, t) (fst ` set (lights s))"
    proof
      fix g assume "g \<in> set (current_group_phase s @ [[(d, t)]])"
      then consider "g \<in> set (current_group_phase s)" | "g = [(d, t)]"
        by auto
      then show "\<exists>k. g = [k] \<and> k \<in> insert (d, t) (fst ` set (lights s))"
      proof cases
        case 1
        with ok obtain k where "g = [k]" "k \<in> fst ` set (lights s)"
          unfolding lights_ok_def by blast
        then show ?thesis by blast
      next
        case 2
        then show ?thesis by blast
      qed
    qed
    show "\<forall>k \<in> insert (d, t) (fst ` set (lights s)).
            [k] \<in> set (current_group_phase s @ [[(d, t)]])"
      using ok by (auto simp: lights_ok_def)
    show "\<forall>kl \<in> set ?ls. red_time (signal_phase (snd kl)) = 0"
      using ok sub new by (auto simp: lights_ok_def)
  qed
  moreover have "\<forall>kl \<in> set ?ls. at_rest (snd kl)"
    using rest sub new by auto
  ultimately show ?thesis
    using assms by (simp add: fresh_def add_lane_def lc add_light_def)
qed

lemma fresh_add_lights: "fresh s \<Longrightarrow> fresh (add_lights lanes s)"
  unfolding add_lights_def
  by (induction lanes arbitrary: s) (simp_all add: fresh_add_lane)

lemma groups_add_lights:
  "current_group_phase (add_lights lanes s) =
     current_group_phase s @ map (\<lambda>lc. [lane_key lc]) lanes"
  unfolding add_lights_def
  by (induction lanes arbitrary: s)
     (auto simp: add_lane_def add_light_def lane_key_def split: prod.splits)

lemma fresh_sort: "fresh s \<Longrightarrow> fresh (sort_lights s)"
  by (simp add: fresh_def sort_lights_def lights_ok_def)

lemma fresh_inv:
  "fresh s \<Longrightarrow> current_group_phase s \<noteq> [] \<Longrightarrow> controller_inv s"
  by (simp add: controller_inv_def fresh_def)

lemma groups_configured:
  "current_group_phase (configured lanes c) = rev (sort (map (\<lambda>lc. [lane_key lc]) lanes))"
  by (simp add: configured_def sort_lights_def groups_add_lights IntersectionController_init_def)

lemma inv_configured:
  assumes "lanes \<noteq> []"
  shows "controller_inv (configured lanes c)"
proof -
  let ?s = "configured lanes c"
  have f: "fresh ?s"
    unfolding configured_def by (intro fresh_sort fresh_add_lights fresh_init)
  have "length (current_group_phase ?s) = length lanes"
    by (simp add: groups_configured)
  with assms have "current_group_phase ?s \<noteq> []"
    by auto
  with f show ?thesis
    by (rule fresh_inv)
qed

lemma inv_run:
  "lanes \<noteq> [] \<Longrightarrow> \<exists>s. run lanes c n = Inr s \<and> controller_inv s"
  unfolding run_def by (intro inv_run_updates inv_configured)

text \<open>A controller without lanes: the first \<^verbatim>\<open>update\<close> divides by zero.\<close>

lemma configured_empty: "configured [] c = IntersectionController_init c"
  by (simp add: configured_def add_lights_def sort_lights_def IntersectionController_init_def)

lemma update_empty_raises:
  "controller_update (IntersectionController_init c) = Inl ZeroDivisionError"
  by (simp add: controller_update_def dispatch_def IntersectionController_init_def)

lemma run_empty:
  assumes "run [] c n = Inr s"
  shows "n = 0 \<and> s = IntersectionController_init c"
proof (cases n)
  case 0
  with assms show ?thesis
    by (simp add: run_def configured_empty)
next
  case (Suc m)
  with assms show ?thesis
    by (simp add: run_def configured_empty update_empty_raises)
qed

text \<open>\<^verbatim>\<open>update\<close> never touches the list of groups.\<close>

lemma groups_update:
  "controller_update s = Inr s' \<Longrightarrow> current_group_phase s' = current_group_phase s"
  by (auto simp: controller_update_def split: if_splits sum.splits)

lemma groups_run_updates:
  "run_updates n s = Inr s' \<Longrightarrow> current_group_phase s' = current_group_phase s"
proof (induction n arbitrary: s)
  case 0
  then show ?case by simp
next
  case (Suc n)
  then obtain s1 where 1: "controller_update s = Inr s1" and 2: "run_updates n s1 = Inr s'"
    by (auto split: sum.splits)
  from Suc.IH [OF 2] groups_update [OF 1] show ?case by simp
qed

section \<open>Further facts about one call of update\<close>

lemma completion_check_first_keys:
  "completion_check ls gs = Inr b \<Longrightarrow> b = first_keys_at_rest ls gs"
proof (induction ls gs rule: completion_check.induct)
  case (1 ls)
  then show ?case by (simp add: first_keys_at_rest_def)
next
  case (2 ls gs)
  then show ?case by simp
next
  case (3 ls k ks gs)
  then show ?case
    by (auto simp: first_keys_at_rest_def at_rest_def split: option.splits if_splits)
qed

lemma update_general:
  assumes "time_in_all_red s \<le> 1" and "controller_update s = Inr s'"
  shows "\<exists>ls. dispatch s = Inr ls \<and>
    s' = (if first_keys_at_rest ls (current_group_phase s)
          then s\<lparr>lights := ls,
                 current_group := (current_group s + 1) mod length (current_group_phase s),
                 time_in_all_red := all_red_time s\<rparr>
          else s\<lparr>lights := ls\<rparr>)"
proof -
  from assms obtain ls b where d: "dispatch s = Inr ls"
    and c: "completion_check ls (current_group_phase s) = Inr b"
    by (auto simp: controller_update_def split: sum.splits)
  from completion_check_first_keys [OF c] have b: "b = first_keys_at_rest ls (current_group_phase s)" .
  from assms d c have "s' = (if b
          then s\<lparr>lights := ls,
                 current_group := (current_group s + 1) mod length (current_group_phase s),
                 time_in_all_red := all_red_time s\<rparr>
          else s\<lparr>lights := ls\<rparr>)"
    by (auto simp: controller_update_def split: if_splits)
  with d b show ?thesis by blast
qed

lemma map_of_dispatch:
  "map_of (map (dispatch_light g) ls) k =
     map_option (\<lambda>l. snd (dispatch_light g (k, l))) (map_of ls k)"
  by (induction ls) (auto simp: dispatch_light_def)

lemma at_rest_update:
  "at_rest l \<Longrightarrow>
     TrafficLight_update l = l\<lparr>state := GREEN, timer := green_time (signal_phase l)\<rparr>"
  by (simp add: at_rest_def TrafficLight_update_def advance_state_def Let_def)

lemma run_updates_snoc:
  "run_updates (Suc n) s =
     (case run_updates n s of Inl e \<Rightarrow> Inl e | Inr s1 \<Rightarrow> controller_update s1)"
proof (induction n arbitrary: s)
  case 0
  then show ?case by (simp split: sum.splits)
next
  case (Suc n)
  show ?case
  proof (cases "controller_update s")
    case (Inl e)
    then show ?thesis by simp
  next
    case (Inr s1)
    have "run_updates (Suc (Suc n)) s = run_updates (Suc n) s1"
      using Inr by simp
    also have "\<dots> = (case run_updates n s1 of Inl e \<Rightarrow> Inl e | Inr s2 \<Rightarrow> controller_update s2)"
      by (rule Suc.IH)
    also have "\<dots> = (case run_updates (Suc n) s of Inl e \<Rightarrow> Inl e | Inr s2 \<Rightarrow> controller_update s2)"
      using Inr by simp
    finally show ?thesis .
  qed
qed

lemma inv_counter: "controller_inv (s\<lparr>time_in_all_red := x\<rparr>) = controller_inv s"
  by (simp add: controller_inv_def active_group_def)

lemma art_update: "controller_update s = Inr s' \<Longrightarrow> all_red_time s' = all_red_time s"
  by (auto simp: controller_update_def split: if_splits sum.splits)

lemma art_run_updates: "run_updates n s = Inr s' \<Longrightarrow> all_red_time s' = all_red_time s"
proof (induction n arbitrary: s)
  case 0
  then show ?case by simp
next
  case (Suc n)
  then obtain s1 where 1: "controller_update s = Inr s1" and 2: "run_updates n s1 = Inr s'"
    by (auto split: sum.splits)
  from Suc.IH [OF 2] art_update [OF 1] show ?case by simp
qed

lemma art_add_lights: "all_red_time (add_lights lanes s) = all_red_time s"
  unfolding add_lights_def
  by (induction lanes arbitrary: s) (auto simp: add_lane_def add_light_def split: prod.splits)

lemma art_run: "run lanes c n = Inr s \<Longrightarrow> all_red_time s = c"
  using art_run_updates [of n "configured lanes c" s]
  by (simp add: run_def configured_def sort_lights_def art_add_lights IntersectionController_init_def)

text \<open>
  An ungated \<^verbatim>\<open>update\<close> of a controller whose lights are all at rest: the lane of
  the active group turns GREEN, and the completion branch is not taken.
\<close>

lemma resume_after_rest:
  assumes inv: "controller_inv s" and gate: "time_in_all_red s \<le> 1"
    and rest: "\<forall>kl \<in> set (lights s). at_rest (snd kl)"
  defines "ls \<equiv> map (dispatch_light (active_group s)) (lights s)"
  shows "controller_update s = Inr (s\<lparr>lights := ls\<rparr>)"
    and "list_all (lane_green ls) (active_group s)"
proof -
  let ?gs = "current_group_phase s"
  from inv have cg: "current_group s < length ?gs"
    and ok: "lights_ok (lights s) ?gs"
    by (simp_all add: controller_inv_def)
  from cg have "active_group s \<in> set ?gs"
    by (simp add: active_group_def)
  with ok obtain a where a: "active_group s = [a]" and ain: "a \<in> fst ` set (lights s)"
    unfolding lights_ok_def by blast
  from ain obtain l where l: "map_of (lights s) a = Some l"
    by (metis domD dom_map_of_conv_image_fst)
  then have "(a, l) \<in> set (lights s)"
    by (rule map_of_SomeD)
  with rest have rl: "at_rest l" by auto
  have la: "map_of ls a = Some (l\<lparr>state := GREEN, timer := green_time (signal_phase l)\<rparr>)"
    unfolding ls_def map_of_dispatch l
    by (simp add: dispatch_light_def a at_rest_update [OF rl])
  then show g: "list_all (lane_green ls) (active_group s)"
    by (simp add: a lane_green_def)
  have "\<not> spec_group_ready ls (active_group s)"
    by (simp add: spec_group_ready_def a la at_rest_def)
  with update_explicit(3) [OF inv gate] show "controller_update s = Inr (s\<lparr>lights := ls\<rparr>)"
    unfolding ls_def by simp
qed

lemma active_group_unsorted:
  assumes "lanes \<noteq> []"
  shows "active_group (add_lights lanes (IntersectionController_init c)) = [lane_key (hd lanes)]"
proof -
  let ?s = "add_lights lanes (IntersectionController_init c)"
  have gs: "current_group_phase ?s = map (\<lambda>lc. [lane_key lc]) lanes"
    by (simp add: groups_add_lights IntersectionController_init_def)
  have "fresh ?s"
    by (intro fresh_add_lights fresh_init)
  then have "current_group ?s = 0"
    by (simp add: fresh_def)
  with gs assms show ?thesis
    by (simp add: active_group_def hd_conv_nth)
qed

section \<open>The controller: the claims\<close>

lemma frozen_updates:
  "time_in_all_red s = c \<Longrightarrow> int k < c \<Longrightarrow>
     run_updates k s = Inr (s\<lparr>time_in_all_red := c - int k\<rparr>)"
proof (induction k arbitrary: s c)
  case 0
  then show ?case by simp
next
  case (Suc k)
  let ?s1 = "s\<lparr>time_in_all_red := c - 1\<rparr>"
  from Suc.prems have gate: "1 < time_in_all_red s" by simp
  then have u: "controller_update s = Inr ?s1"
    using Suc.prems by (simp add: controller_update_def)
  have "run_updates k ?s1 = Inr (?s1\<lparr>time_in_all_red := (c - 1) - int k\<rparr>)"
    using Suc.prems by (intro Suc.IH) simp_all
  with u show ?case
    by (simp add: algebra_simps)
qed

text \<open>
  C1, as the code has it. While the clearance counter exceeds 1, \<^verbatim>\<open>update\<close> only
  decrements it and returns. In a controller configured with at least one lane by
  \<^verbatim>\<open>add_light\<close> calls, \<^verbatim>\<open>sort_lights\<close> and any number of \<^verbatim>\<open>update\<close> calls, an
  ungated \<^verbatim>\<open>update\<close> after whose loop every lane of the active group is RED with timer
  0 sets the counter to \<^verbatim>\<open>all_red_time\<close>, written c, advances \<^verbatim>\<open>current_group\<close>
  and leaves every light RED with timer 0. Any k calls after it, for k below c, change
  the counter alone, to c - k: the lights are all RED in the c states after the
  completing call and the c - 1 frozen ones. The call after the frozen ones, which is
  the c-th call for c at least 1 and the first for c below 1, is not gated: it runs the
  loop over the lights, and every lane of the newly active group is then GREEN with
  its green time on the timer.
\<close>

theorem clearance_interval:
  "(1 < time_in_all_red s \<longrightarrow>
      controller_update s = Inr (s\<lparr>time_in_all_red := time_in_all_red s - 1\<rparr>)) \<and>
   (lanes \<noteq> [] \<and> run lanes c n = Inr s \<and> time_in_all_red s \<le> 1 \<and>
    spec_group_ready (map (dispatch_light (active_group s)) (lights s)) (active_group s) \<longrightarrow>
      (\<exists>s'. controller_update s = Inr s' \<and>
         all_red_time s = c \<and> time_in_all_red s' = c \<and>
         current_group s' = (current_group s + 1) mod length (current_group_phase s) \<and>
         all_at_rest (lights s') \<and>
         (\<forall>k. int k < c \<longrightarrow> run_updates k s' = Inr (s'\<lparr>time_in_all_red := c - int k\<rparr>)) \<and>
         run_updates (Suc (nat (c - 1))) s' =
           Inr (s'\<lparr>time_in_all_red := min 1 c,
                   lights := map (dispatch_light (active_group s')) (lights s')\<rparr>) \<and>
         list_all (lane_green (map (dispatch_light (active_group s')) (lights s')))
           (active_group s')))"
proof (intro conjI impI)
  assume "1 < time_in_all_red s"
  then show "controller_update s = Inr (s\<lparr>time_in_all_red := time_in_all_red s - 1\<rparr>)"
    by (simp add: controller_update_def)
next
  assume a: "lanes \<noteq> [] \<and> run lanes c n = Inr s \<and> time_in_all_red s \<le> 1 \<and>
    spec_group_ready (map (dispatch_light (active_group s)) (lights s)) (active_group s)"
  let ?ls = "map (dispatch_light (active_group s)) (lights s)"
  let ?s' = "s\<lparr>lights := ?ls,
               current_group := (current_group s + 1) mod length (current_group_phase s),
               time_in_all_red := all_red_time s\<rparr>"
  from a have run: "run lanes c n = Inr s" and gate: "time_in_all_red s \<le> 1"
    and ready: "spec_group_ready ?ls (active_group s)"
    by simp_all
  from inv_run [of lanes c n] a have inv: "controller_inv s"
    by auto
  have art: "all_red_time s = c"
    using run by (rule art_run)
  from update_explicit(3) [OF inv gate] ready have u: "controller_update s = Inr ?s'"
    by simp
  from inv_step [OF inv] u have inv': "controller_inv ?s'"
    by auto
  have rest: "\<forall>kl \<in> set (lights ?s'). at_rest (snd kl)"
    using ready_all_at_rest [OF inv ready] by simp
  then have all: "all_at_rest (lights ?s')"
    unfolding all_at_rest_def list_all_iff .
  have t: "time_in_all_red ?s' = c"
    using art by simp
  have frozen: "\<forall>k. int k < c \<longrightarrow>
      run_updates k ?s' = Inr (?s'\<lparr>time_in_all_red := c - int k\<rparr>)"
    using frozen_updates [OF t] by blast
  let ?s1 = "?s'\<lparr>time_in_all_red := min 1 c\<rparr>"
  have before: "run_updates (nat (c - 1)) ?s' = Inr ?s1"
  proof (cases "1 \<le> c")
    case True
    then have "int (nat (c - 1)) < c" by simp
    with frozen have "run_updates (nat (c - 1)) ?s' =
        Inr (?s'\<lparr>time_in_all_red := c - int (nat (c - 1))\<rparr>)"
      by blast
    with True show ?thesis by simp
  next
    case False
    then have "nat (c - 1) = 0" "min 1 c = c" by simp_all
    with art show ?thesis by simp
  qed
  have inv1: "controller_inv ?s1"
    using inv' by (simp only: inv_counter)
  have gate1: "time_in_all_red ?s1 \<le> 1"
    by simp
  have rest1: "\<forall>kl \<in> set (lights ?s1). at_rest (snd kl)"
    using rest by simp
  have ag: "active_group ?s1 = active_group ?s'" "lights ?s1 = lights ?s'"
    by (simp_all add: active_group_def)
  from resume_after_rest [OF inv1 gate1 rest1]
  have resume: "controller_update ?s1 =
      Inr (?s1\<lparr>lights := map (dispatch_light (active_group ?s')) (lights ?s')\<rparr>)"
    and green: "list_all (lane_green (map (dispatch_light (active_group ?s')) (lights ?s')))
      (active_group ?s')"
    unfolding ag by simp_all
  have after: "run_updates (Suc (nat (c - 1))) ?s' =
      Inr (?s'\<lparr>time_in_all_red := min 1 c,
               lights := map (dispatch_light (active_group ?s')) (lights ?s')\<rparr>)"
    unfolding run_updates_snoc before using resume by simp
  have cg': "current_group ?s' = (current_group s + 1) mod length (current_group_phase s)"
    by simp
  from u art t cg' all frozen after green
  show "\<exists>s'. controller_update s = Inr s' \<and>
         all_red_time s = c \<and> time_in_all_red s' = c \<and>
         current_group s' = (current_group s + 1) mod length (current_group_phase s) \<and>
         all_at_rest (lights s') \<and>
         (\<forall>k. int k < c \<longrightarrow> run_updates k s' = Inr (s'\<lparr>time_in_all_red := c - int k\<rparr>)) \<and>
         run_updates (Suc (nat (c - 1))) s' =
           Inr (s'\<lparr>time_in_all_red := min 1 c,
                   lights := map (dispatch_light (active_group s')) (lights s')\<rparr>) \<and>
         list_all (lane_green (map (dispatch_light (active_group s')) (lights s')))
           (active_group s')"
    by (intro exI [of _ ?s']) (simp only: simp_thms)
qed

text \<open>
  The witness: two lanes with green 2 and yellow 1 and \<^verbatim>\<open>all_red_time\<close> 3. The sixth
  \<^verbatim>\<open>update\<close> completes the first group; the two calls after it change the counter
  alone, and the third turns the second lane GREEN.
\<close>

theorem clearance_interval_witness:
  "\<exists>s s'. run [(''NS'', ''through'', 2, 1), (''EW'', ''left-turn'', 2, 1)] 3 5 = Inr s \<and>
     time_in_all_red s \<le> 1 \<and>
     spec_group_ready (map (dispatch_light (active_group s)) (lights s)) (active_group s) \<and>
     controller_update s = Inr s' \<and> time_in_all_red s' = 3 \<and> current_group s' = 1 \<and>
     all_at_rest (lights s') \<and>
     run_updates 1 s' = Inr (s'\<lparr>time_in_all_red := 2\<rparr>) \<and>
     run_updates 2 s' = Inr (s'\<lparr>time_in_all_red := 1\<rparr>) \<and>
     run_updates 3 s' =
       Inr (s'\<lparr>time_in_all_red := 1,
               lights := map (dispatch_light (active_group s')) (lights s')\<rparr>) \<and>
     lane_green (map (dispatch_light (active_group s')) (lights s')) (''EW'', ''left-turn'') \<and>
     controller_update (s'\<lparr>time_in_all_red := 3\<rparr>) = Inr (s'\<lparr>time_in_all_red := 2\<rparr>)"
proof -
  let ?L = "[(''NS'', ''through'', 2, 1), (''EW'', ''left-turn'', 2, 1)]"
  let ?p = "\<lparr>green_time = 2, yellow_time = 1, red_time = 0\<rparr>"
  let ?gs = "[[(''NS'', ''through'')], [(''EW'', ''left-turn'')]]"
  let ?s = "\<lparr>all_red_time = 3, time_in_all_red = 0, clock = 0,
     lights = [((''NS'', ''through''), \<lparr>signal_phase = ?p, state = YELLOW, timer = 0\<rparr>),
               ((''EW'', ''left-turn''), \<lparr>signal_phase = ?p, state = RED, timer = 0\<rparr>)],
     current_group = 0, current_group_phase = ?gs\<rparr>"
  let ?s' = "\<lparr>all_red_time = 3, time_in_all_red = 3, clock = 0,
     lights = [((''NS'', ''through''), \<lparr>signal_phase = ?p, state = RED, timer = 0\<rparr>),
               ((''EW'', ''left-turn''), \<lparr>signal_phase = ?p, state = RED, timer = 0\<rparr>)],
     current_group = 1, current_group_phase = ?gs\<rparr>"
  have ne: "?L \<noteq> []"
    by simp
  have r: "run ?L 3 5 = Inr ?s"
    by code_simp
  have g: "time_in_all_red ?s \<le> 1"
    by simp
  have ready: "spec_group_ready (map (dispatch_light (active_group ?s)) (lights ?s)) (active_group ?s)"
    by code_simp
  have u: "controller_update ?s = Inr ?s'"
    by code_simp
  have ag: "active_group ?s' = [(''EW'', ''left-turn'')]"
    by (simp add: active_group_def)
  from clearance_interval [of ?s ?L 3 5] ne r g ready u
  have 1: "all_at_rest (lights ?s')"
    and 2: "\<forall>k. int k < 3 \<longrightarrow> run_updates k ?s' = Inr (?s'\<lparr>time_in_all_red := 3 - int k\<rparr>)"
    and 3: "run_updates (Suc (nat (3 - 1))) ?s' =
           Inr (?s'\<lparr>time_in_all_red := min 1 3,
                   lights := map (dispatch_light (active_group ?s')) (lights ?s')\<rparr>)"
    and 4: "list_all (lane_green (map (dispatch_light (active_group ?s')) (lights ?s')))
           (active_group ?s')"
    by auto
  from 2 [rule_format, of 1] have 21: "run_updates 1 ?s' = Inr (?s'\<lparr>time_in_all_red := 2\<rparr>)"
    by simp
  from 2 [rule_format, of 2] have 22: "run_updates 2 ?s' = Inr (?s'\<lparr>time_in_all_red := 1\<rparr>)"
    by simp
  from 3 have 33: "run_updates 3 ?s' =
       Inr (?s'\<lparr>time_in_all_red := 1,
               lights := map (dispatch_light (active_group ?s')) (lights ?s')\<rparr>)"
    by (simp add: eval_nat_numeral)
  from 4 have 44: "lane_green (map (dispatch_light (active_group ?s')) (lights ?s'))
      (''EW'', ''left-turn'')"
    unfolding ag by simp
  from clearance_interval [of "?s'\<lparr>time_in_all_red := 3\<rparr>"]
  have 5: "controller_update (?s'\<lparr>time_in_all_red := 3\<rparr>) = Inr (?s'\<lparr>time_in_all_red := 2\<rparr>)"
    by simp
  show ?thesis
    apply (rule exI [of _ ?s])
    apply (rule exI [of _ ?s'])
    apply (intro conjI)
    apply (rule r)
    apply (rule g)
    apply (rule ready)
    apply (rule u)
    apply simp
    apply simp
    apply (rule 1)
    apply (rule 21)
    apply (rule 22)
    apply (rule 33)
    apply (rule 44)
    apply (rule 5)
    done
qed

text \<open>
  The claim C1 fails with two lanes (green 2, yellow 1) and \<^verbatim>\<open>all_red_time\<close> 2: the
  sixth \<^verbatim>\<open>update\<close> completes the first group and arms the counter at 2; only the
  seventh call is frozen, and the eighth turns the lane of the newly active group GREEN.
\<close>

theorem clearance_counterexample:
  "run [(''NS'', ''through'', 2, 1), (''EW'', ''left-turn'', 2, 1)] 2 6 =
     Inr \<lparr>all_red_time = 2, time_in_all_red = 2, clock = 0,
       lights =
         [((''NS'', ''through''),
           \<lparr>signal_phase = \<lparr>green_time = 2, yellow_time = 1, red_time = 0\<rparr>,
            state = RED, timer = 0\<rparr>),
          ((''EW'', ''left-turn''),
           \<lparr>signal_phase = \<lparr>green_time = 2, yellow_time = 1, red_time = 0\<rparr>,
            state = RED, timer = 0\<rparr>)],
       current_group = 1,
       current_group_phase = [[(''NS'', ''through'')], [(''EW'', ''left-turn'')]]\<rparr> \<and>
   run [(''NS'', ''through'', 2, 1), (''EW'', ''left-turn'', 2, 1)] 2 8 =
     Inr \<lparr>all_red_time = 2, time_in_all_red = 1, clock = 0,
       lights =
         [((''NS'', ''through''),
           \<lparr>signal_phase = \<lparr>green_time = 2, yellow_time = 1, red_time = 0\<rparr>,
            state = RED, timer = 0\<rparr>),
          ((''EW'', ''left-turn''),
           \<lparr>signal_phase = \<lparr>green_time = 2, yellow_time = 1, red_time = 0\<rparr>,
            state = GREEN, timer = 2\<rparr>)],
       current_group = 1,
       current_group_phase = [[(''NS'', ''through'')], [(''EW'', ''left-turn'')]]\<rparr>"
  by code_simp

lemma inv_mutex:
  assumes inv: "controller_inv s"
  shows "inactive_red s" and "inactive_at_rest s"
    and "list_all (\<lambda>g. g = active_group s) (lit_groups s)"
proof -
  let ?gs = "current_group_phase s"
  from inv have cg: "current_group s < length ?gs"
    and ok: "lights_ok (lights s) ?gs"
    and rest: "\<forall>kl \<in> set (lights s). fst kl \<notin> set (active_group s) \<longrightarrow> at_rest (snd kl)"
    by (simp_all add: controller_inv_def)
  from rest show "inactive_at_rest s"
    unfolding inactive_at_rest_def list_all_iff by blast
  from rest show "inactive_red s"
    unfolding inactive_red_def list_all_iff at_rest_def by blast
  from cg have "active_group s \<in> set ?gs"
    by (simp add: active_group_def)
  with ok obtain a where a: "active_group s = [a]"
    unfolding lights_ok_def by blast
  have "g = active_group s" if g: "g \<in> set ?gs" and lit: "list_ex (lane_lit (lights s)) g" for g
  proof -
    from ok g obtain k where k: "g = [k]"
      unfolding lights_ok_def by blast
    with lit obtain l where l: "map_of (lights s) k = Some l" and nr: "state l \<noteq> RED"
      by (auto simp: lane_lit_def split: option.splits)
    from l have "(k, l) \<in> set (lights s)"
      by (rule map_of_SomeD)
    with rest nr have "k \<in> set (active_group s)"
      by (auto simp: at_rest_def)
    with a k show ?thesis by simp
  qed
  then show "list_all (\<lambda>g. g = active_group s) (lit_groups s)"
    unfolding lit_groups_def list_all_iff by simp
qed

lemma distinct_groups:
  assumes "distinct (map lane_key lanes)" and "run lanes c n = Inr s"
  shows "distinct (current_group_phase s)"
proof -
  have "distinct (map (\<lambda>lc. [lane_key lc]) lanes)"
    using assms(1) by (simp add: distinct_map inj_on_def)
  then have "distinct (current_group_phase (configured lanes c))"
    by (simp add: groups_configured)
  with groups_run_updates [OF assms(2) [unfolded run_def]] show ?thesis
    by simp
qed

lemma at_most_one:
  assumes "distinct xs" and "list_all (\<lambda>x. x = a) (filter P xs)"
  shows "length (filter P xs) \<le> 1"
proof -
  from assms(1) have "distinct (filter P xs)" by simp
  then have "length (filter P xs) = card (set (filter P xs))"
    by (metis distinct_card)
  also from assms(2) have "set (filter P xs) \<subseteq> {a}"
    unfolding list_all_iff by blast
  then have "card (set (filter P xs)) \<le> card {a}"
    by (intro card_mono) simp_all
  finally show ?thesis by simp
qed

text \<open>
  C2. A controller configured with at least one lane never raises in \<^verbatim>\<open>update\<close>,
  and in every state reached by \<^verbatim>\<open>add_light\<close> calls, \<^verbatim>\<open>sort_lights\<close> and any
  number of \<^verbatim>\<open>update\<close> calls, every light outside the active group is RED and every
  group with a GREEN or YELLOW lane is the active group; with pairwise distinct lane
  keys, at most one group of the list has a GREEN or YELLOW lane.
\<close>

theorem mutual_exclusion:
  "(lanes \<noteq> [] \<longrightarrow> (\<exists>s. run lanes c n = Inr s)) \<and>
   (\<forall>s. run lanes c n = Inr s \<longrightarrow>
      inactive_red s \<and> list_all (\<lambda>g. g = active_group s) (lit_groups s) \<and>
      (distinct (map lane_key lanes) \<longrightarrow> length (lit_groups s) \<le> 1))"
proof (cases "lanes = []")
  case True
  have "inactive_red s \<and> lit_groups s = []" if "run lanes c n = Inr s" for s
    using run_empty [OF that [unfolded True]]
    by (simp add: inactive_red_def lit_groups_def IntersectionController_init_def)
  with True show ?thesis by simp
next
  case False
  from inv_run [OF False] obtain s0 where s0: "run lanes c n = Inr s0" and inv: "controller_inv s0"
    by blast
  have one: "length (lit_groups s0) \<le> 1" if "distinct (map lane_key lanes)"
    using at_most_one [OF distinct_groups [OF that s0]] inv_mutex(3) [OF inv]
    unfolding lit_groups_def by blast
  from s0 inv_mutex(1,3) [OF inv] one show ?thesis
    by auto
qed

theorem mutual_exclusion_witness:
  "\<exists>s. run [(''NS'', ''through'', 2, 1), (''EW'', ''left-turn'', 2, 1)] 2 2 = Inr s \<and>
     map (\<lambda>kl. state (snd kl)) (lights s) = [GREEN, RED] \<and>
     lit_groups s = [[(''NS'', ''through'')]] \<and>
     inactive_red s \<and> list_all (\<lambda>g. g = active_group s) (lit_groups s) \<and>
     length (lit_groups s) \<le> 1"
proof -
  let ?L = "[(''NS'', ''through'', 2, 1), (''EW'', ''left-turn'', 2, 1)]"
  let ?p = "\<lparr>green_time = 2, yellow_time = 1, red_time = 0\<rparr>"
  let ?s = "\<lparr>all_red_time = 2, time_in_all_red = 0, clock = 0,
     lights = [((''NS'', ''through''), \<lparr>signal_phase = ?p, state = GREEN, timer = 1\<rparr>),
               ((''EW'', ''left-turn''), \<lparr>signal_phase = ?p, state = RED, timer = 0\<rparr>)],
     current_group = 0,
     current_group_phase = [[(''NS'', ''through'')], [(''EW'', ''left-turn'')]]\<rparr>"
  have r: "run ?L 2 2 = Inr ?s"
    by code_simp
  have d: "distinct (map lane_key ?L)"
    by (simp add: lane_key_def)
  have l: "lit_groups ?s = [[(''NS'', ''through'')]]"
    by (simp add: lit_groups_def lane_lit_def)
  from mutual_exclusion [of ?L 2 2] r d
  have "inactive_red ?s \<and> list_all (\<lambda>g. g = active_group ?s) (lit_groups ?s) \<and>
      length (lit_groups ?s) \<le> 1"
    by blast
  with r l show ?thesis
    by (intro exI [of _ ?s]) simp
qed

text \<open>
  C10. In every state reached by \<^verbatim>\<open>add_light\<close> calls, \<^verbatim>\<open>sort_lights\<close> and any
  number of \<^verbatim>\<open>update\<close> calls, every light outside the active group is RED with
  timer 0; whenever a further \<^verbatim>\<open>update\<close> changes \<^verbatim>\<open>current_group\<close>, every light
  is RED with timer 0 afterwards; and in an ungated \<^verbatim>\<open>update\<close> of a controller with
  at least one lane, the code's check over the first key of every group returns what
  the check over the keys of the active group returns. The lane keys need not be
  distinct.
\<close>

theorem inactive_lights_at_rest:
  assumes "run lanes c n = Inr s"
  shows "inactive_at_rest s \<and>
    (\<forall>s'. controller_update s = Inr s' \<and> current_group s' \<noteq> current_group s \<longrightarrow>
       all_at_rest (lights s')) \<and>
    (lanes \<noteq> [] \<and> time_in_all_red s \<le> 1 \<longrightarrow>
       (\<exists>ls. dispatch s = Inr ls \<and>
          completion_check ls (current_group_phase s) =
            Inr (spec_group_ready ls (active_group s))))"
proof (cases "lanes = []")
  case True
  from run_empty [OF assms [unfolded True]] have s: "s = IntersectionController_init c"
    by simp
  have "controller_update s = Inl ZeroDivisionError"
    unfolding s by (rule update_empty_raises)
  moreover have "inactive_at_rest s"
    unfolding s by (simp add: inactive_at_rest_def IntersectionController_init_def)
  ultimately show ?thesis
    using True by simp
next
  case False
  from inv_run [OF False, of c n] assms have inv: "controller_inv s"
    by auto
  from inv_step [OF inv] have
    "\<forall>s'. controller_update s = Inr s' \<and> current_group s' \<noteq> current_group s \<longrightarrow>
       all_at_rest (lights s')"
    unfolding all_at_rest_def list_all_iff by auto
  moreover have "time_in_all_red s \<le> 1 \<longrightarrow>
       (\<exists>ls. dispatch s = Inr ls \<and>
          completion_check ls (current_group_phase s) =
            Inr (spec_group_ready ls (active_group s)))"
    using update_explicit(1,2) [OF inv] by blast
  ultimately show ?thesis
    using inv_mutex(2) [OF inv] by blast
qed

theorem inactive_lights_at_rest_witness:
  "\<exists>s s'. run [(''NS'', ''through'', 2, 1), (''EW'', ''left-turn'', 2, 1)] 2 5 = Inr s \<and>
     controller_update s = Inr s' \<and> current_group s = 0 \<and> current_group s' = 1 \<and>
     inactive_at_rest s \<and> all_at_rest (lights s') \<and>
     completion_check (lights s') (current_group_phase s) =
       Inr (spec_group_ready (lights s') (active_group s))"
proof -
  let ?L = "[(''NS'', ''through'', 2, 1), (''EW'', ''left-turn'', 2, 1)]"
  let ?p = "\<lparr>green_time = 2, yellow_time = 1, red_time = 0\<rparr>"
  let ?gs = "[[(''NS'', ''through'')], [(''EW'', ''left-turn'')]]"
  let ?s = "\<lparr>all_red_time = 2, time_in_all_red = 0, clock = 0,
     lights = [((''NS'', ''through''), \<lparr>signal_phase = ?p, state = YELLOW, timer = 0\<rparr>),
               ((''EW'', ''left-turn''), \<lparr>signal_phase = ?p, state = RED, timer = 0\<rparr>)],
     current_group = 0, current_group_phase = ?gs\<rparr>"
  let ?s' = "\<lparr>all_red_time = 2, time_in_all_red = 2, clock = 0,
     lights = [((''NS'', ''through''), \<lparr>signal_phase = ?p, state = RED, timer = 0\<rparr>),
               ((''EW'', ''left-turn''), \<lparr>signal_phase = ?p, state = RED, timer = 0\<rparr>)],
     current_group = 1, current_group_phase = ?gs\<rparr>"
  have r: "run ?L 2 5 = Inr ?s"
    by code_simp
  have u: "controller_update ?s = Inr ?s'"
    by code_simp
  have d: "dispatch ?s = Inr (lights ?s')"
    by code_simp
  note t = inactive_lights_at_rest [OF r]
  from t have 1: "inactive_at_rest ?s"
    by blast
  from t u have 2: "all_at_rest (lights ?s')"
    by simp
  from t d have 3: "completion_check (lights ?s') (current_group_phase ?s) =
       Inr (spec_group_ready (lights ?s') (active_group ?s))"
    by simp
  from r u 1 2 3 show ?thesis
    by (intro exI [of _ ?s] exI [of _ ?s']) simp
qed

text \<open>
  C4, as the code has it. An \<^verbatim>\<open>update\<close> not gated by clearance that returns has run
  the loop over the lights, and it sets \<^verbatim>\<open>current_group\<close> to
  (\<^verbatim>\<open>current_group\<close> + 1) mod the number of groups and \<^verbatim>\<open>time_in_all_red\<close> to
  \<^verbatim>\<open>all_red_time\<close> exactly when the light of the first key of every group, looked
  up by the whole key, is then RED with timer 0; otherwise only the lights change. In
  a controller configured with at least one lane by \<^verbatim>\<open>add_light\<close> calls,
  \<^verbatim>\<open>sort_lights\<close> and any number of \<^verbatim>\<open>update\<close> calls, such an \<^verbatim>\<open>update\<close> always
  returns, and that condition holds exactly when every key of the active group is RED
  with timer 0.
\<close>

theorem completion_check_all_groups:
  "(time_in_all_red s \<le> 1 \<and> controller_update s = Inr s' \<longrightarrow>
      (\<exists>ls. dispatch s = Inr ls \<and>
         s' = (if first_keys_at_rest ls (current_group_phase s)
               then s\<lparr>lights := ls,
                      current_group := (current_group s + 1) mod length (current_group_phase s),
                      time_in_all_red := all_red_time s\<rparr>
               else s\<lparr>lights := ls\<rparr>))) \<and>
   (lanes \<noteq> [] \<and> run lanes c n = Inr s \<and> time_in_all_red s \<le> 1 \<longrightarrow>
      (\<exists>ls. dispatch s = Inr ls \<and>
         first_keys_at_rest ls (current_group_phase s) = spec_group_ready ls (active_group s) \<and>
         controller_update s =
           Inr (if spec_group_ready ls (active_group s)
                then s\<lparr>lights := ls,
                       current_group := (current_group s + 1) mod length (current_group_phase s),
                       time_in_all_red := all_red_time s\<rparr>
                else s\<lparr>lights := ls\<rparr>)))"
proof (intro conjI impI)
  assume "time_in_all_red s \<le> 1 \<and> controller_update s = Inr s'"
  then show "\<exists>ls. dispatch s = Inr ls \<and>
         s' = (if first_keys_at_rest ls (current_group_phase s)
               then s\<lparr>lights := ls,
                      current_group := (current_group s + 1) mod length (current_group_phase s),
                      time_in_all_red := all_red_time s\<rparr>
               else s\<lparr>lights := ls\<rparr>)"
    using update_general [of s s'] by blast
next
  assume a: "lanes \<noteq> [] \<and> run lanes c n = Inr s \<and> time_in_all_red s \<le> 1"
  let ?ls = "map (dispatch_light (active_group s)) (lights s)"
  from inv_run [of lanes c n] a have inv: "controller_inv s"
    by auto
  from a have gate: "time_in_all_red s \<le> 1"
    by simp
  note e = update_explicit [OF inv gate]
  from completion_check_first_keys [OF e(2)]
  have "first_keys_at_rest ?ls (current_group_phase s) = spec_group_ready ?ls (active_group s)"
    by simp
  with e(1,3) show "\<exists>ls. dispatch s = Inr ls \<and>
         first_keys_at_rest ls (current_group_phase s) = spec_group_ready ls (active_group s) \<and>
         controller_update s =
           Inr (if spec_group_ready ls (active_group s)
                then s\<lparr>lights := ls,
                       current_group := (current_group s + 1) mod length (current_group_phase s),
                       time_in_all_red := all_red_time s\<rparr>
                else s\<lparr>lights := ls\<rparr>)"
    by blast
qed

text \<open>
  The witness has two lane types of one direction, so a lookup by direction alone
  could not tell their lights apart. The fourth \<^verbatim>\<open>update\<close> completes the first
  group, the second one does not.
\<close>

theorem completion_check_all_groups_witness:
  "\<exists>s s' t t'. run [(''NS'', ''left-turn'', 1, 0), (''NS'', ''through'', 1, 0)] 2 3 = Inr s \<and>
     time_in_all_red s \<le> 1 \<and> controller_update s = Inr s' \<and>
     spec_group_ready (lights s') (active_group s) \<and>
     first_keys_at_rest (lights s') (current_group_phase s) \<and>
     current_group s = 0 \<and> current_group s' = 1 \<and> time_in_all_red s' = 2 \<and>
     run [(''NS'', ''left-turn'', 1, 0), (''NS'', ''through'', 1, 0)] 2 1 = Inr t \<and>
     time_in_all_red t \<le> 1 \<and> controller_update t = Inr t' \<and>
     current_group t' = current_group t \<and> time_in_all_red t' = time_in_all_red t"
proof -
  let ?L = "[(''NS'', ''left-turn'', 1, 0), (''NS'', ''through'', 1, 0)]"
  let ?p = "\<lparr>green_time = 1, yellow_time = 0, red_time = 0\<rparr>"
  let ?gs = "[[(''NS'', ''through'')], [(''NS'', ''left-turn'')]]"
  let ?ls = "[((''NS'', ''left-turn''), \<lparr>signal_phase = ?p, state = RED, timer = 0\<rparr>),
              ((''NS'', ''through''), \<lparr>signal_phase = ?p, state = RED, timer = 0\<rparr>)]"
  let ?s = "\<lparr>all_red_time = 2, time_in_all_red = 0, clock = 0,
     lights = [((''NS'', ''left-turn''), \<lparr>signal_phase = ?p, state = RED, timer = 0\<rparr>),
               ((''NS'', ''through''), \<lparr>signal_phase = ?p, state = YELLOW, timer = 0\<rparr>)],
     current_group = 0, current_group_phase = ?gs\<rparr>"
  let ?ms = "[((''NS'', ''left-turn''), \<lparr>signal_phase = ?p, state = RED, timer = 0\<rparr>),
              ((''NS'', ''through''), \<lparr>signal_phase = ?p, state = GREEN, timer = 0\<rparr>)]"
  let ?t = "\<lparr>all_red_time = 2, time_in_all_red = 0, clock = 0,
     lights = [((''NS'', ''left-turn''), \<lparr>signal_phase = ?p, state = RED, timer = 0\<rparr>),
               ((''NS'', ''through''), \<lparr>signal_phase = ?p, state = GREEN, timer = 1\<rparr>)],
     current_group = 0, current_group_phase = ?gs\<rparr>"
  have ne: "?L \<noteq> []"
    by simp
  have rs: "run ?L 2 3 = Inr ?s"
    by code_simp
  have rt: "run ?L 2 1 = Inr ?t"
    by code_simp
  have ds: "dispatch ?s = Inr ?ls"
    by code_simp
  have dt: "dispatch ?t = Inr ?ms"
    by code_simp
  have ready_s: "spec_group_ready ?ls (active_group ?s)"
    by code_simp
  have ready_t: "\<not> spec_group_ready ?ms (active_group ?t)"
    by code_simp
  from completion_check_all_groups [of ?s _ ?L 2 3] ne rs ds ready_s
  have us: "controller_update ?s =
      Inr (?s\<lparr>lights := ?ls, current_group := 1, time_in_all_red := 2\<rparr>)"
    and fs: "first_keys_at_rest ?ls (current_group_phase ?s)"
    by simp_all
  from completion_check_all_groups [of ?t _ ?L 2 1] ne rt dt ready_t
  have ut: "controller_update ?t = Inr (?t\<lparr>lights := ?ms\<rparr>)"
    by simp
  from rs rt us ut ready_s fs show ?thesis
    by (intro exI [of _ ?s] exI [of _ "?s\<lparr>lights := ?ls, current_group := 1, time_in_all_red := 2\<rparr>"]
          exI [of _ ?t] exI [of _ "?t\<lparr>lights := ?ms\<rparr>"]) simp
qed

text \<open>
  The claim C4 fails when \<^verbatim>\<open>sort_lights\<close> is called after two lanes were added in
  ascending order and \<^verbatim>\<open>update\<close> was called twice: the sort makes the other group
  the active one, the first \<^verbatim>\<open>update\<close> after it sets the GREEN light to RED with
  its timer left at 1, and when five calls later the lane of the active group is RED
  with timer 0 after the loop, \<^verbatim>\<open>current_group\<close> and \<^verbatim>\<open>time_in_all_red\<close> stay
  as they are.
\<close>

theorem completion_check_counterexample:
  "run_updates 2
     (add_lights [(''EW'', ''left-turn'', 2, 1), (''NS'', ''through'', 2, 1)]
        (IntersectionController_init 2)) =
     Inr \<lparr>all_red_time = 2, time_in_all_red = 0, clock = 0,
       lights =
         [((''EW'', ''left-turn''),
           \<lparr>signal_phase = \<lparr>green_time = 2, yellow_time = 1, red_time = 0\<rparr>,
            state = GREEN, timer = 1\<rparr>),
          ((''NS'', ''through''),
           \<lparr>signal_phase = \<lparr>green_time = 2, yellow_time = 1, red_time = 0\<rparr>,
            state = RED, timer = 0\<rparr>)],
       current_group = 0,
       current_group_phase = [[(''EW'', ''left-turn'')], [(''NS'', ''through'')]]\<rparr> \<and>
   run_updates 5
     (sort_lights
        \<lparr>all_red_time = 2, time_in_all_red = 0, clock = 0,
         lights =
           [((''EW'', ''left-turn''),
             \<lparr>signal_phase = \<lparr>green_time = 2, yellow_time = 1, red_time = 0\<rparr>,
              state = GREEN, timer = 1\<rparr>),
            ((''NS'', ''through''),
             \<lparr>signal_phase = \<lparr>green_time = 2, yellow_time = 1, red_time = 0\<rparr>,
              state = RED, timer = 0\<rparr>)],
         current_group = 0,
         current_group_phase = [[(''EW'', ''left-turn'')], [(''NS'', ''through'')]]\<rparr>) =
     Inr \<lparr>all_red_time = 2, time_in_all_red = 0, clock = 0,
       lights =
         [((''EW'', ''left-turn''),
           \<lparr>signal_phase = \<lparr>green_time = 2, yellow_time = 1, red_time = 0\<rparr>,
            state = RED, timer = 1\<rparr>),
          ((''NS'', ''through''),
           \<lparr>signal_phase = \<lparr>green_time = 2, yellow_time = 1, red_time = 0\<rparr>,
            state = YELLOW, timer = 0\<rparr>)],
       current_group = 0,
       current_group_phase = [[(''NS'', ''through'')], [(''EW'', ''left-turn'')]]\<rparr> \<and>
   dispatch
     \<lparr>all_red_time = 2, time_in_all_red = 0, clock = 0,
      lights =
        [((''EW'', ''left-turn''),
          \<lparr>signal_phase = \<lparr>green_time = 2, yellow_time = 1, red_time = 0\<rparr>,
           state = RED, timer = 1\<rparr>),
         ((''NS'', ''through''),
          \<lparr>signal_phase = \<lparr>green_time = 2, yellow_time = 1, red_time = 0\<rparr>,
           state = YELLOW, timer = 0\<rparr>)],
      current_group = 0,
      current_group_phase = [[(''NS'', ''through'')], [(''EW'', ''left-turn'')]]\<rparr> =
     Inr [((''EW'', ''left-turn''),
           \<lparr>signal_phase = \<lparr>green_time = 2, yellow_time = 1, red_time = 0\<rparr>,
            state = RED, timer = 1\<rparr>),
          ((''NS'', ''through''),
           \<lparr>signal_phase = \<lparr>green_time = 2, yellow_time = 1, red_time = 0\<rparr>,
            state = RED, timer = 0\<rparr>)] \<and>
   spec_group_ready
     [((''EW'', ''left-turn''),
       \<lparr>signal_phase = \<lparr>green_time = 2, yellow_time = 1, red_time = 0\<rparr>,
        state = RED, timer = 1\<rparr>),
      ((''NS'', ''through''),
       \<lparr>signal_phase = \<lparr>green_time = 2, yellow_time = 1, red_time = 0\<rparr>,
        state = RED, timer = 0\<rparr>)]
     [(''NS'', ''through'')] \<and>
   controller_update
     \<lparr>all_red_time = 2, time_in_all_red = 0, clock = 0,
      lights =
        [((''EW'', ''left-turn''),
          \<lparr>signal_phase = \<lparr>green_time = 2, yellow_time = 1, red_time = 0\<rparr>,
           state = RED, timer = 1\<rparr>),
         ((''NS'', ''through''),
          \<lparr>signal_phase = \<lparr>green_time = 2, yellow_time = 1, red_time = 0\<rparr>,
           state = YELLOW, timer = 0\<rparr>)],
      current_group = 0,
      current_group_phase = [[(''NS'', ''through'')], [(''EW'', ''left-turn'')]]\<rparr> =
     Inr \<lparr>all_red_time = 2, time_in_all_red = 0, clock = 0,
       lights =
         [((''EW'', ''left-turn''),
           \<lparr>signal_phase = \<lparr>green_time = 2, yellow_time = 1, red_time = 0\<rparr>,
            state = RED, timer = 1\<rparr>),
          ((''NS'', ''through''),
           \<lparr>signal_phase = \<lparr>green_time = 2, yellow_time = 1, red_time = 0\<rparr>,
            state = RED, timer = 0\<rparr>)],
       current_group = 0,
       current_group_phase = [[(''NS'', ''through'')], [(''EW'', ''left-turn'')]]\<rparr>"
  by code_simp

text \<open>
  C7. In an \<^verbatim>\<open>update\<close> that is not gated by clearance and returns, a light whose
  key is outside the active group is afterwards the light it was with the state set to
  RED: its timer and its phase are the ones it had, and a light that was RED is not
  changed at all.
\<close>

theorem forced_red_frame:
  assumes "time_in_all_red s \<le> 1" and "controller_update s = Inr s'"
    and "i < length (lights s)" and "fst (lights s ! i) \<notin> set (active_group s)"
  shows "lights s' ! i = (fst (lights s ! i), (snd (lights s ! i))\<lparr>state := RED\<rparr>) \<and>
    timer (snd (lights s' ! i)) = timer (snd (lights s ! i)) \<and>
    signal_phase (snd (lights s' ! i)) = signal_phase (snd (lights s ! i)) \<and>
    (state (snd (lights s ! i)) = RED \<longrightarrow> lights s' ! i = lights s ! i)"
proof -
  from assms(1,2) obtain ls where d: "dispatch s = Inr ls" and l: "lights s' = ls"
    by (auto simp: controller_update_def split: sum.splits if_splits)
  from assms(3) have ne: "lights s \<noteq> []"
    by auto
  with d have ls: "ls = map (dispatch_light (active_group s)) (lights s)"
    by (auto simp: dispatch_def split: if_splits)
  have forced: "dispatch_light (active_group s) (lights s ! i) =
      (fst (lights s ! i), (snd (lights s ! i))\<lparr>state := RED\<rparr>)"
    using assms(4) by (simp add: dispatch_light_def)
  have same: "state (snd (lights s ! i)) = RED \<longrightarrow>
      dispatch_light (active_group s) (lights s ! i) = lights s ! i"
    using assms(4) by (simp add: dispatch_light_def)
  from assms(3) have "lights s' ! i = dispatch_light (active_group s) (lights s ! i)"
    by (simp add: l ls)
  with forced same show ?thesis
    by simp
qed

text \<open>
  The witness is a controller whose second light shows GREEN with timer 2 although its
  group is not the active one: \<^verbatim>\<open>update\<close> sets that light to RED and keeps the
  timer 2.
\<close>

theorem forced_red_frame_witness:
  "time_in_all_red
     \<lparr>all_red_time = 4, time_in_all_red = 0, clock = 0,
      lights =
        [((''NS'', ''through''),
          \<lparr>signal_phase = SignalPhase_init 3 2, state = GREEN, timer = 3\<rparr>),
         ((''EW'', ''through''),
          \<lparr>signal_phase = SignalPhase_init 3 2, state = GREEN, timer = 2\<rparr>)],
      current_group = 0,
      current_group_phase = [[(''NS'', ''through'')], [(''EW'', ''through'')]]\<rparr> \<le> 1 \<and>
   controller_update
     \<lparr>all_red_time = 4, time_in_all_red = 0, clock = 0,
      lights =
        [((''NS'', ''through''),
          \<lparr>signal_phase = SignalPhase_init 3 2, state = GREEN, timer = 3\<rparr>),
         ((''EW'', ''through''),
          \<lparr>signal_phase = SignalPhase_init 3 2, state = GREEN, timer = 2\<rparr>)],
      current_group = 0,
      current_group_phase = [[(''NS'', ''through'')], [(''EW'', ''through'')]]\<rparr> =
   Inr \<lparr>all_red_time = 4, time_in_all_red = 0, clock = 0,
      lights =
        [((''NS'', ''through''),
          \<lparr>signal_phase = SignalPhase_init 3 2, state = GREEN, timer = 2\<rparr>),
         ((''EW'', ''through''),
          \<lparr>signal_phase = SignalPhase_init 3 2, state = RED, timer = 2\<rparr>)],
      current_group = 0,
      current_group_phase = [[(''NS'', ''through'')], [(''EW'', ''through'')]]\<rparr>"
proof -
  let ?gs = "[[(''NS'', ''through'')], [(''EW'', ''through'')]]"
  let ?s = "\<lparr>all_red_time = 4, time_in_all_red = 0, clock = 0,
      lights =
        [((''NS'', ''through''),
          \<lparr>signal_phase = SignalPhase_init 3 2, state = GREEN, timer = 3\<rparr>),
         ((''EW'', ''through''),
          \<lparr>signal_phase = SignalPhase_init 3 2, state = GREEN, timer = 2\<rparr>)],
      current_group = 0, current_group_phase = ?gs\<rparr>"
  obtain s' where u: "controller_update ?s = Inr s'"
    and rest: "s' = ?s\<lparr>lights := [lights s' ! 0, lights s' ! Suc 0]\<rparr>"
    and active: "lights s' ! 0 =
      ((''NS'', ''through''), \<lparr>signal_phase = SignalPhase_init 3 2, state = GREEN, timer = 2\<rparr>)"
    by (simp add: controller_update_def dispatch_def active_group_def dispatch_light_def
        TrafficLight_update_def Let_def)
  have g: "time_in_all_red ?s \<le> 1"
    by simp
  have i: "Suc 0 < length (lights ?s)"
    by simp
  have out: "fst (lights ?s ! Suc 0) \<notin> set (active_group ?s)"
    by (simp add: active_group_def)
  from forced_red_frame [OF g u i out]
  have forced: "lights s' ! Suc 0 =
      ((''EW'', ''through''), \<lparr>signal_phase = SignalPhase_init 3 2, state = RED, timer = 2\<rparr>)"
    by simp
  from u have "controller_update ?s = Inr (?s\<lparr>lights := [lights s' ! 0, lights s' ! Suc 0]\<rparr>)"
    using rest by simp
  then show ?thesis
    unfolding active forced using g by simp
qed

text \<open>
  C9, as the code has it. \<^verbatim>\<open>sort_lights\<close> raises nothing: on a controller without
  lanes it returns the controller unchanged. \<^verbatim>\<open>update\<close> does not need
  \<^verbatim>\<open>sort_lights\<close>: on a controller with at least one lane that was never sorted, the
  groups are the lanes in the order they were added, and \<^verbatim>\<open>update\<close> returns the
  controller with the loop over the lights run for the group of the lane added first:
  that lane is GREEN with its green time on the timer, and every other light is RED
  with timer 0.
\<close>

theorem configuration_unchecked:
  "sort_lights (IntersectionController_init c) = IntersectionController_init c \<and>
   (lanes \<noteq> [] \<longrightarrow>
      current_group_phase (add_lights lanes (IntersectionController_init c)) =
        map (\<lambda>lc. [lane_key lc]) lanes \<and>
      controller_update (add_lights lanes (IntersectionController_init c)) =
        Inr ((add_lights lanes (IntersectionController_init c))
          \<lparr>lights := map (dispatch_light [lane_key (hd lanes)])
             (lights (add_lights lanes (IntersectionController_init c)))\<rparr>) \<and>
      lane_green
        (map (dispatch_light [lane_key (hd lanes)])
           (lights (add_lights lanes (IntersectionController_init c))))
        (lane_key (hd lanes)) \<and>
      list_all (\<lambda>kl. fst kl = lane_key (hd lanes) \<or> at_rest (snd kl))
        (map (dispatch_light [lane_key (hd lanes)])
           (lights (add_lights lanes (IntersectionController_init c)))))"
proof
  show "sort_lights (IntersectionController_init c) = IntersectionController_init c"
    by (simp add: sort_lights_def IntersectionController_init_def)
next
  let ?s = "add_lights lanes (IntersectionController_init c)"
  let ?a = "lane_key (hd lanes)"
  let ?ls = "map (dispatch_light [?a]) (lights ?s)"
  have gs: "current_group_phase ?s = map (\<lambda>lc. [lane_key lc]) lanes"
    by (simp add: groups_add_lights IntersectionController_init_def)
  have f: "fresh ?s"
    by (intro fresh_add_lights fresh_init)
  show "lanes \<noteq> [] \<longrightarrow>
      current_group_phase ?s = map (\<lambda>lc. [lane_key lc]) lanes \<and>
      controller_update ?s = Inr (?s\<lparr>lights := ?ls\<rparr>) \<and>
      lane_green ?ls ?a \<and>
      list_all (\<lambda>kl. fst kl = ?a \<or> at_rest (snd kl)) ?ls"
  proof
    assume ne: "lanes \<noteq> []"
    with gs have "current_group_phase ?s \<noteq> []"
      by simp
    with f have inv: "controller_inv ?s"
      by (intro fresh_inv)
    from f have gate: "time_in_all_red ?s \<le> 1"
      and rest: "\<forall>kl \<in> set (lights ?s). at_rest (snd kl)"
      by (simp_all add: fresh_def)
    note ag = active_group_unsorted [OF ne, of c]
    from resume_after_rest [OF inv gate rest]
    have u: "controller_update ?s = Inr (?s\<lparr>lights := ?ls\<rparr>)"
      and g: "lane_green ?ls ?a"
      unfolding ag by simp_all
    from rest have "\<forall>kl \<in> set (lights ?s). fst kl \<notin> set [?a] \<longrightarrow> at_rest (snd kl)"
      by blast
    from inactive_stay_at_rest [OF this]
    have "list_all (\<lambda>kl. fst kl = ?a \<or> at_rest (snd kl)) ?ls"
      unfolding list_all_iff by fastforce
    with gs u g show "current_group_phase ?s = map (\<lambda>lc. [lane_key lc]) lanes \<and>
      controller_update ?s = Inr (?s\<lparr>lights := ?ls\<rparr>) \<and>
      lane_green ?ls ?a \<and>
      list_all (\<lambda>kl. fst kl = ?a \<or> at_rest (snd kl)) ?ls"
      by simp
  qed
qed

text \<open>
  The witness adds three lanes in ascending order: the lane served is the one added
  first, which a descending sort would have put last.
\<close>

theorem configuration_unchecked_witness:
  "controller_update
     (add_lights [(''EW'', ''through'', 3, 2), (''NS'', ''left-turn'', 1, 1), (''NS'', ''through'', 3, 2)]
        (IntersectionController_init 4)) =
     Inr \<lparr>all_red_time = 4, time_in_all_red = 0, clock = 0,
       lights =
         [((''EW'', ''through''),
           \<lparr>signal_phase = \<lparr>green_time = 3, yellow_time = 2, red_time = 0\<rparr>,
            state = GREEN, timer = 3\<rparr>),
          ((''NS'', ''left-turn''),
           \<lparr>signal_phase = \<lparr>green_time = 1, yellow_time = 1, red_time = 0\<rparr>,
            state = RED, timer = 0\<rparr>),
          ((''NS'', ''through''),
           \<lparr>signal_phase = \<lparr>green_time = 3, yellow_time = 2, red_time = 0\<rparr>,
            state = RED, timer = 0\<rparr>)],
       current_group = 0,
       current_group_phase =
         [[(''EW'', ''through'')], [(''NS'', ''left-turn'')], [(''NS'', ''through'')]]\<rparr>"
proof -
  let ?L = "[(''EW'', ''through'', 3, 2), (''NS'', ''left-turn'', 1, 1), (''NS'', ''through'', 3, 2)]"
  let ?s = "add_lights ?L (IntersectionController_init 4)"
  have ne: "?L \<noteq> []"
    by simp
  have e: "?s\<lparr>lights := map (dispatch_light [lane_key (hd ?L)]) (lights ?s)\<rparr> =
     \<lparr>all_red_time = 4, time_in_all_red = 0, clock = 0,
       lights =
         [((''EW'', ''through''),
           \<lparr>signal_phase = \<lparr>green_time = 3, yellow_time = 2, red_time = 0\<rparr>,
            state = GREEN, timer = 3\<rparr>),
          ((''NS'', ''left-turn''),
           \<lparr>signal_phase = \<lparr>green_time = 1, yellow_time = 1, red_time = 0\<rparr>,
            state = RED, timer = 0\<rparr>),
          ((''NS'', ''through''),
           \<lparr>signal_phase = \<lparr>green_time = 3, yellow_time = 2, red_time = 0\<rparr>,
            state = RED, timer = 0\<rparr>)],
       current_group = 0,
       current_group_phase =
         [[(''EW'', ''through'')], [(''NS'', ''left-turn'')], [(''NS'', ''through'')]]\<rparr>"
    by code_simp
  from configuration_unchecked [of 4 ?L] ne
  have "controller_update ?s =
      Inr (?s\<lparr>lights := map (dispatch_light [lane_key (hd ?L)]) (lights ?s)\<rparr>)"
    by blast
  then show ?thesis
    unfolding e .
qed

text \<open>
  The claim C9 fails twice: \<^verbatim>\<open>sort_lights\<close> on a controller without lanes returns
  it, and \<^verbatim>\<open>update\<close> on two lanes added in ascending order and never sorted returns
  a state in which the lane added first is GREEN.
\<close>

theorem configuration_counterexample:
  "sort_lights (IntersectionController_init 4) =
     \<lparr>all_red_time = 4, time_in_all_red = 0, clock = 0, lights = [],
      current_group = 0, current_group_phase = []\<rparr> \<and>
   controller_update
     (add_lights [(''EW'', ''left-turn'', 2, 1), (''NS'', ''through'', 2, 1)]
        (IntersectionController_init 4)) =
     Inr \<lparr>all_red_time = 4, time_in_all_red = 0, clock = 0,
       lights =
         [((''EW'', ''left-turn''),
           \<lparr>signal_phase = \<lparr>green_time = 2, yellow_time = 1, red_time = 0\<rparr>,
            state = GREEN, timer = 2\<rparr>),
          ((''NS'', ''through''),
           \<lparr>signal_phase = \<lparr>green_time = 2, yellow_time = 1, red_time = 0\<rparr>,
            state = RED, timer = 0\<rparr>)],
       current_group = 0,
       current_group_phase = [[(''EW'', ''left-turn'')], [(''NS'', ''through'')]]\<rparr>"
  by code_simp


end
